theory Spec2Isabelle
  imports Complex_Main
begin

section \<open>Forward and backward pass of a sigmoid network (notebook 8.4)\<close>

text \<open>
  The notebook defines \<^verbatim>\<open>Z\<close>, \<^verbatim>\<open>A\<close>, \<^verbatim>\<open>forward\<close>, \<^verbatim>\<open>mse_loss\<close> and
  \<^verbatim>\<open>forward_backward\<close> on top of a tensor library. The Python functions are embedded
  one by one below. The library itself is not part of the repository; its operations
  are modelled for tensors of rank two that hold 32-bit floats, on one device: with
  the rounding, the infinities and the NaN of float arithmetic, and with the library's
  broadcasting rule for elementwise operations. Tensors of another rank or element
  type, and what the library does when it is given tensors of different element
  types, are outside the model. Input vector, activations, biases and deltas are
  column vectors, tensors of shape \<open>(n, 1)\<close>, as in the cell that runs the functions.
\<close>

subsection \<open>Exceptions\<close>

text \<open>
  \<open>ShapeMismatch\<close> is the library's run-time error for operands whose sizes do not fit;
  the other three are the Python exceptions the list and attribute accesses of the
  notebook can raise.
\<close>

datatype error = ShapeMismatch | IndexError | TypeError | AttributeError

definition bnd :: "error + 'a \<Rightarrow> ('a \<Rightarrow> error + 'b) \<Rightarrow> error + 'b" where
  "bnd m f = (case m of Inl e \<Rightarrow> Inl e | Inr v \<Rightarrow> f v)"

subsection \<open>Python lists and ranges\<close>

text \<open>An index into a list of length \<open>n\<close>: negative indices count from the end.\<close>

definition py_index :: "nat \<Rightarrow> int \<Rightarrow> error + nat" where
  "py_index n i =
     (if 0 \<le> i \<and> i < int n then Inr (nat i)
      else if i < 0 \<and> - int n \<le> i then Inr (nat (int n + i))
      else Inl IndexError)"

definition py_get :: "'a list \<Rightarrow> int \<Rightarrow> error + 'a" where
  "py_get xs i = bnd (py_index (length xs) i) (\<lambda>k. Inr (xs ! k))"

definition py_set :: "'a list \<Rightarrow> int \<Rightarrow> 'a \<Rightarrow> error + 'a list" where
  "py_set xs i v = bnd (py_index (length xs) i) (\<lambda>k. Inr (xs[k := v]))"

text \<open>\<^verbatim>\<open>range(start, stop)\<close> and \<^verbatim>\<open>range(start, stop, -1)\<close>.\<close>

definition py_range :: "int \<Rightarrow> int \<Rightarrow> int list" where
  "py_range start stop = map (\<lambda>k. start + int k) [0..<nat (stop - start)]"

definition py_range_down :: "int \<Rightarrow> int \<Rightarrow> int list" where
  "py_range_down start stop = map (\<lambda>k. start - int k) [0..<nat (start - stop)]"

subsection \<open>Floats\<close>

text \<open>
  The tensors of the notebook hold 32-bit floats (IEEE 754 binary32, the library's
  default type). A value is a finite number, an infinity or NaN; the sign of a zero is
  not kept. Every operation below returns a representable number, an infinity or
  NaN.
\<close>

datatype f32 = Finite real | PInf | NInf | NaN

text \<open>Two to a whole power, negative powers included.\<close>

definition pow2 :: "int \<Rightarrow> real" where
  "pow2 k = (if 0 \<le> k then 2 ^ nat k else 1 / 2 ^ nat (- k))"

text \<open>Rounding to the nearest integer, a tie to the even one.\<close>

definition round_even :: "real \<Rightarrow> int" where
  "round_even q =
     (let n = \<lfloor>q\<rfloor>; r = q - of_int n
      in if r < 1 / 2 then n else if 1 / 2 < r then n + 1 else if even n then n else n + 1)"

text \<open>
  The unit in the last place of a number: 24 significant bits, the exponent not
  below that of the smallest normal number.
\<close>

definition ulp :: "real \<Rightarrow> real" where
  "ulp x = pow2 (max \<lfloor>log 2 \<bar>x\<bar>\<rfloor> (- 126) - 23)"

text \<open>
  Rounding a real result to a float: to the nearest representable number, to an
  infinity when that leaves the range.
\<close>

definition fl32 :: "real \<Rightarrow> f32" where
  "fl32 x =
     (if x = 0 then Finite 0
      else let r = of_int (round_even (x / ulp x)) * ulp x
           in if 2 ^ 128 \<le> \<bar>r\<bar> then (if 0 < x then PInf else NInf) else Finite r)"

text \<open>
  The arithmetic operations: the exact result rounded, with the rules of the standard
  for infinities and NaN.
\<close>

fun fneg :: "f32 \<Rightarrow> f32" where
  "fneg (Finite a) = Finite (- a)"
| "fneg PInf = NInf"
| "fneg NInf = PInf"
| "fneg NaN = NaN"

fun fadd :: "f32 \<Rightarrow> f32 \<Rightarrow> f32" where
  "fadd (Finite a) (Finite b) = fl32 (a + b)"
| "fadd NaN v = NaN"
| "fadd v NaN = NaN"
| "fadd PInf NInf = NaN"
| "fadd NInf PInf = NaN"
| "fadd PInf v = PInf"
| "fadd v PInf = PInf"
| "fadd NInf v = NInf"
| "fadd v NInf = NInf"

definition fsub :: "f32 \<Rightarrow> f32 \<Rightarrow> f32" where
  "fsub u v = fadd u (fneg v)"

fun fmul :: "f32 \<Rightarrow> f32 \<Rightarrow> f32" where
  "fmul (Finite a) (Finite b) = fl32 (a * b)"
| "fmul NaN v = NaN"
| "fmul v NaN = NaN"
| "fmul (Finite a) PInf = (if a = 0 then NaN else if 0 < a then PInf else NInf)"
| "fmul (Finite a) NInf = (if a = 0 then NaN else if 0 < a then NInf else PInf)"
| "fmul PInf (Finite b) = (if b = 0 then NaN else if 0 < b then PInf else NInf)"
| "fmul NInf (Finite b) = (if b = 0 then NaN else if 0 < b then NInf else PInf)"
| "fmul PInf PInf = PInf"
| "fmul PInf NInf = NInf"
| "fmul NInf PInf = NInf"
| "fmul NInf NInf = PInf"

text \<open>\<^verbatim>\<open>torch.pow\<close> with a whole exponent, by repeated multiplication.\<close>

fun fpow :: "f32 \<Rightarrow> nat \<Rightarrow> f32" where
  "fpow v 0 = Finite 1"
| "fpow v (Suc 0) = v"
| "fpow v (Suc (Suc n)) = fmul (fpow v (Suc n)) v"

text \<open>
  Division, which the sigmoid uses with a divisor of at least 1. A zero divisor counts
  as a positive zero.
\<close>

fun fdiv :: "f32 \<Rightarrow> f32 \<Rightarrow> f32" where
  "fdiv (Finite a) (Finite b) =
     (if b = 0 then (if a = 0 then NaN else if 0 < a then PInf else NInf) else fl32 (a / b))"
| "fdiv NaN v = NaN"
| "fdiv v NaN = NaN"
| "fdiv (Finite a) PInf = Finite 0"
| "fdiv (Finite a) NInf = Finite 0"
| "fdiv PInf (Finite b) = (if 0 \<le> b then PInf else NInf)"
| "fdiv NInf (Finite b) = (if 0 \<le> b then NInf else PInf)"
| "fdiv PInf PInf = NaN"
| "fdiv PInf NInf = NaN"
| "fdiv NInf PInf = NaN"
| "fdiv NInf NInf = NaN"

text \<open>The exponential of the library, taken as the exponential rounded.\<close>

fun fexp :: "f32 \<Rightarrow> f32" where
  "fexp (Finite a) = fl32 (exp a)"
| "fexp PInf = PInf"
| "fexp NInf = Finite 0"
| "fexp NaN = NaN"

text \<open>
  The sigmoid of the library on one float: \<open>1 / (1 + exp (- v))\<close>, each step a float
  operation.
\<close>

definition fsigmoid :: "f32 \<Rightarrow> f32" where
  "fsigmoid v = fdiv (Finite 1) (fadd (Finite 1) (fexp (fneg v)))"

text \<open>A float in the closed interval from 0 to 1; a float that is not negative.\<close>

definition unit_interval :: "f32 \<Rightarrow> bool" where
  "unit_interval v = (case v of Finite r \<Rightarrow> 0 \<le> r \<and> r \<le> 1 | _ \<Rightarrow> False)"

definition not_negative :: "f32 \<Rightarrow> bool" where
  "not_negative v = (case v of Finite r \<Rightarrow> 0 \<le> r | PInf \<Rightarrow> True | _ \<Rightarrow> False)"

subsection \<open>Tensors of rank two\<close>

datatype tensor = Tensor (nrows: nat) (ncols: nat) (entry: "nat \<Rightarrow> nat \<Rightarrow> f32")

text \<open>\<^verbatim>\<open>list(t.shape)\<close>\<close>

definition shape :: "tensor \<Rightarrow> nat list" where
  "shape t = [nrows t, ncols t]"

text \<open>
  The sum of products of a row and a column. The library does not promise an order
  for the sum; here it runs from the first product to the last.
\<close>

definition dot :: "nat \<Rightarrow> (nat \<Rightarrow> f32) \<Rightarrow> (nat \<Rightarrow> f32) \<Rightarrow> f32" where
  "dot n f g = foldl (\<lambda>acc k. fadd acc (fmul (f k) (g k))) (Finite 0) [0..<n]"

text \<open>\<^verbatim>\<open>torch.matmul\<close> on two matrices: the inner sizes must agree.\<close>

definition matmul :: "tensor \<Rightarrow> tensor \<Rightarrow> error + tensor" where
  "matmul s t =
     (if ncols s = nrows t
      then Inr (Tensor (nrows s) (ncols t)
                  (\<lambda>i j. dot (ncols s) (\<lambda>k. entry s i k) (\<lambda>k. entry t k j)))
      else Inl ShapeMismatch)"

text \<open>\<^verbatim>\<open>t.T\<close>\<close>

definition transpose_t :: "tensor \<Rightarrow> tensor" where
  "transpose_t t = Tensor (ncols t) (nrows t) (\<lambda>i j. entry t j i)"

text \<open>
  Broadcasting of one dimension: equal sizes stay, a size of one stretches to the
  other size, anything else is refused.
\<close>

definition bdim :: "nat \<Rightarrow> nat \<Rightarrow> error + nat" where
  "bdim m n =
     (if m = n then Inr m else if m = 1 then Inr n else if n = 1 then Inr m
      else Inl ShapeMismatch)"

definition bidx :: "nat \<Rightarrow> nat \<Rightarrow> nat" where
  "bidx m i = (if m = 1 then 0 else i)"

definition broadcast2 :: "(f32 \<Rightarrow> f32 \<Rightarrow> f32) \<Rightarrow> tensor \<Rightarrow> tensor \<Rightarrow> error + tensor" where
  "broadcast2 f s t =
     bnd (bdim (nrows s) (nrows t)) (\<lambda>r.
     bnd (bdim (ncols s) (ncols t)) (\<lambda>c.
     Inr (Tensor r c
            (\<lambda>i j. f (entry s (bidx (nrows s) i) (bidx (ncols s) j))
                     (entry t (bidx (nrows t) i) (bidx (ncols t) j))))))"

text \<open>\<^verbatim>\<open>s + t\<close>, \<^verbatim>\<open>s - t\<close>, \<^verbatim>\<open>s * t\<close> on tensors.\<close>

definition tadd :: "tensor \<Rightarrow> tensor \<Rightarrow> error + tensor" where
  "tadd = broadcast2 fadd"

definition tsub :: "tensor \<Rightarrow> tensor \<Rightarrow> error + tensor" where
  "tsub = broadcast2 fsub"

definition tmul :: "tensor \<Rightarrow> tensor \<Rightarrow> error + tensor" where
  "tmul = broadcast2 fmul"

definition pointwise :: "(f32 \<Rightarrow> f32) \<Rightarrow> tensor \<Rightarrow> tensor" where
  "pointwise f t = Tensor (nrows t) (ncols t) (\<lambda>i j. f (entry t i j))"

text \<open>
  \<^verbatim>\<open>c - t\<close> and \<^verbatim>\<open>c * t\<close> for a Python number \<open>c\<close>, which the library takes as a float
  of the tensor's type, and \<^verbatim>\<open>torch.pow(t, n)\<close>.
\<close>

definition rsub :: "f32 \<Rightarrow> tensor \<Rightarrow> tensor" where
  "rsub c = pointwise (\<lambda>v. fsub c v)"

definition smul :: "f32 \<Rightarrow> tensor \<Rightarrow> tensor" where
  "smul c = pointwise (\<lambda>v. fmul c v)"

definition tpow :: "tensor \<Rightarrow> nat \<Rightarrow> tensor" where
  "tpow t n = pointwise (\<lambda>v. fpow v n) t"

text \<open>\<^verbatim>\<open>torch.sigmoid\<close>\<close>

definition tsigmoid :: "tensor \<Rightarrow> tensor" where
  "tsigmoid = pointwise fsigmoid"

subsection \<open>Forward propagation\<close>

text \<open>\<^verbatim>\<open>def Z(x, W_l, b_l): return torch.matmul(W_l, x) + b_l\<close>\<close>

definition Z :: "tensor \<Rightarrow> tensor \<Rightarrow> tensor \<Rightarrow> error + tensor" where
  "Z x W_l b_l = bnd (matmul W_l x) (\<lambda>m. tadd m b_l)"

text \<open>\<^verbatim>\<open>def A(z_l): return torch.sigmoid(z_l)\<close>\<close>

definition A :: "tensor \<Rightarrow> tensor" where
  "A z_l = tsigmoid z_l"

text \<open>
  The loop of \<^verbatim>\<open>forward\<close>, over the layer numbers still to visit, with the current
  activation \<open>a_l\<close>.
\<close>

fun forward_loop :: "tensor list \<Rightarrow> tensor list \<Rightarrow> int list \<Rightarrow> tensor \<Rightarrow> error + tensor" where
  "forward_loop W b [] a_l = Inr a_l"
| "forward_loop W b (l # ls) a_l =
     bnd (py_get W l) (\<lambda>W_l.
     bnd (py_get b l) (\<lambda>b_l.
     bnd (Z a_l W_l b_l) (\<lambda>z_l.
     forward_loop W b ls (A z_l))))"

definition forward :: "tensor \<Rightarrow> tensor list \<Rightarrow> tensor list \<Rightarrow> error + tensor" where
  "forward x W b =
     (let L = int (length W) - 1 in forward_loop W b (py_range 0 (L + 1)) x)"

subsection \<open>Loss\<close>

text \<open>\<^verbatim>\<open>def mse_loss(a_L, y): return 1./ 2 * torch.pow((a_L - y), 2)\<close>\<close>

definition mse_loss :: "tensor \<Rightarrow> tensor \<Rightarrow> error + tensor" where
  "mse_loss a_L y = bnd (tsub a_L y) (\<lambda>d. Inr (smul (Finite (1 / 2)) (tpow d 2)))"

subsection \<open>Forward and backward pass\<close>

text \<open>What \<^verbatim>\<open>print\<close> writes: one value per call.\<close>

datatype out_line =
    Final_activation tensor
  | Loss tensor
  | Layer_shapes int "nat list" "nat list" "nat list" "nat list" "nat list"

type_synonym stdout = "out_line list"

text \<open>
  The first loop of \<^verbatim>\<open>forward_backward\<close>: the list \<open>a\<close> collects the activation of
  every layer.
\<close>

fun forward_sweep ::
  "tensor \<Rightarrow> tensor list \<Rightarrow> tensor list \<Rightarrow> int list \<Rightarrow> tensor list \<Rightarrow> error + tensor list" where
  "forward_sweep x W b [] a = Inr a"
| "forward_sweep x W b (l # ls) a =
     bnd (if l = 0 then Inr x else py_get a (l - 1)) (\<lambda>a_prev.
     bnd (py_get W l) (\<lambda>W_l.
     bnd (py_get b l) (\<lambda>b_l.
     bnd (Z a_prev W_l b_l) (\<lambda>z_l.
     forward_sweep x W b ls (a @ [A z_l])))))"

text \<open>
  The three lists the backward sweep fills; every cell starts as \<^verbatim>\<open>None\<close>.
\<close>

record grads =
  deltas :: "tensor option list"
  W_grads :: "tensor option list"
  b_grads :: "tensor option list"

text \<open>
  Passing \<^verbatim>\<open>None\<close> to a library function is a \<^verbatim>\<open>TypeError\<close>; reading \<^verbatim>\<open>.shape\<close>
  of \<^verbatim>\<open>None\<close> is an \<^verbatim>\<open>AttributeError\<close>.
\<close>

definition as_tensor :: "tensor option \<Rightarrow> error + tensor" where
  "as_tensor v = (case v of None \<Rightarrow> Inl TypeError | Some t \<Rightarrow> Inr t)"

definition shape_of :: "tensor option \<Rightarrow> error + nat list" where
  "shape_of v = (case v of None \<Rightarrow> Inl AttributeError | Some t \<Rightarrow> Inr (shape t))"

text \<open>
  \<^verbatim>\<open>W_grads[l] = torch.matmul(deltas[l], a[l - 1].T)\<close> followed by
  \<^verbatim>\<open>b_grads[l] = deltas[l]\<close>: the two statements that end both the block for the last
  layer and the body of the backward loop.
\<close>

definition store_grads :: "tensor list \<Rightarrow> int \<Rightarrow> grads \<Rightarrow> error + grads" where
  "store_grads a l g =
     bnd (py_get (deltas g) l) (\<lambda>d.
     bnd (py_get a (l - 1)) (\<lambda>a_prev.
     bnd (as_tensor d) (\<lambda>d_l.
     bnd (matmul d_l (transpose_t a_prev)) (\<lambda>wg.
     bnd (py_set (W_grads g) l (Some wg)) (\<lambda>wgs.
     bnd (py_get (deltas g) l) (\<lambda>d'.
     bnd (py_set (b_grads g) l d') (\<lambda>bgs.
     Inr (g\<lparr>W_grads := wgs, b_grads := bgs\<rparr>))))))))"

text \<open>
  The block for the last layer:
  \<^verbatim>\<open>a_L = a[L]; deltas[L] = (a_L - y) * a_L * (1 - a_L)\<close> and the two stores.
\<close>

definition backward_last :: "tensor list \<Rightarrow> tensor \<Rightarrow> int \<Rightarrow> grads \<Rightarrow> error + grads" where
  "backward_last a y L g =
     bnd (py_get a L) (\<lambda>a_L.
     bnd (tsub a_L y) (\<lambda>t1.
     bnd (tmul t1 a_L) (\<lambda>t2.
     bnd (tmul t2 (rsub (Finite 1) a_L)) (\<lambda>d.
     bnd (py_set (deltas g) L (Some d)) (\<lambda>ds.
     store_grads a L (g\<lparr>deltas := ds\<rparr>))))))"

text \<open>
  The body of the backward loop:
  \<^verbatim>\<open>a_l = a[l]; deltas[l] = torch.matmul(W[l + 1].T, deltas[l + 1]) * a_l * (1 - a_l)\<close>
  and the two stores.
\<close>

definition backward_step :: "tensor list \<Rightarrow> tensor list \<Rightarrow> int \<Rightarrow> grads \<Rightarrow> error + grads" where
  "backward_step a W l g =
     bnd (py_get a l) (\<lambda>a_l.
     bnd (py_get W (l + 1)) (\<lambda>W_next.
     bnd (py_get (deltas g) (l + 1)) (\<lambda>d.
     bnd (as_tensor d) (\<lambda>d_next.
     bnd (matmul (transpose_t W_next) d_next) (\<lambda>t1.
     bnd (tmul t1 a_l) (\<lambda>t2.
     bnd (tmul t2 (rsub (Finite 1) a_l)) (\<lambda>d_l.
     bnd (py_set (deltas g) l (Some d_l)) (\<lambda>ds.
     store_grads a l (g\<lparr>deltas := ds\<rparr>)))))))))"

fun backward_loop :: "tensor list \<Rightarrow> tensor list \<Rightarrow> int list \<Rightarrow> grads \<Rightarrow> error + grads" where
  "backward_loop a W [] g = Inr g"
| "backward_loop a W (l # ls) g = bnd (backward_step a W l g) (backward_loop a W ls)"

text \<open>The backward sweep as a whole, from the three fresh lists.\<close>

definition backward_sweep :: "tensor list \<Rightarrow> tensor \<Rightarrow> tensor list \<Rightarrow> int \<Rightarrow> error + grads" where
  "backward_sweep a y W L =
     (let none = replicate (nat (L + 1)) None in
      bnd (backward_last a y L \<lparr>deltas = none, W_grads = none, b_grads = none\<rparr>)
        (backward_loop a W (py_range_down (L - 1) (- 1))))"

text \<open>The last loop, which prints the shapes layer by layer.\<close>

definition shapes_line :: "tensor list \<Rightarrow> tensor list \<Rightarrow> grads \<Rightarrow> int \<Rightarrow> error + out_line" where
  "shapes_line W b g l =
     bnd (py_get W l) (\<lambda>W_l.
     bnd (py_get (W_grads g) l) (\<lambda>wg.
     bnd (shape_of wg) (\<lambda>wg_shape.
     bnd (py_get b l) (\<lambda>b_l.
     bnd (py_get (b_grads g) l) (\<lambda>bg.
     bnd (shape_of bg) (\<lambda>bg_shape.
     bnd (py_get (deltas g) l) (\<lambda>d.
     bnd (shape_of d) (\<lambda>d_shape.
     Inr (Layer_shapes l (shape W_l) wg_shape (shape b_l) bg_shape d_shape)))))))))"

fun print_shapes ::
  "tensor list \<Rightarrow> tensor list \<Rightarrow> grads \<Rightarrow> int list \<Rightarrow> stdout \<Rightarrow> (error + unit) \<times> stdout" where
  "print_shapes W b g [] out = (Inr (), out)"
| "print_shapes W b g (l # ls) out =
     (case shapes_line W b g l of
        Inl e \<Rightarrow> (Inl e, out)
      | Inr line \<Rightarrow> print_shapes W b g ls (out @ [line]))"

text \<open>
  \<^verbatim>\<open>forward_backward\<close>. The function takes what has been printed so far and returns
  it extended, next to its result: the loss and the two lists of gradients, or the
  exception raised.
\<close>

definition forward_backward ::
  "tensor \<Rightarrow> tensor \<Rightarrow> tensor list \<Rightarrow> tensor list \<Rightarrow> stdout \<Rightarrow>
     (error + tensor \<times> tensor option list \<times> tensor option list) \<times> stdout" where
  "forward_backward x y W b out0 =
     (let L = int (length W) - 1 in
      case forward_sweep x W b (py_range 0 (L + 1)) [] of
        Inl e \<Rightarrow> (Inl e, out0)
      | Inr a \<Rightarrow>
     (case py_get a L of
        Inl e \<Rightarrow> (Inl e, out0)
      | Inr a_L \<Rightarrow>
     (let out1 = out0 @ [Final_activation a_L] in
      case mse_loss a_L y of
        Inl e \<Rightarrow> (Inl e, out1)
      | Inr loss \<Rightarrow>
     (let out2 = out1 @ [Loss loss] in
      case backward_sweep a y W L of
        Inl e \<Rightarrow> (Inl e, out2)
      | Inr g \<Rightarrow>
     (case print_shapes W b g (py_range 0 (L + 1)) out2 of
        (Inl e, out3) \<Rightarrow> (Inl e, out3)
      | (Inr u, out3) \<Rightarrow> (Inr (loss, W_grads g, b_grads g), out3))))))"

subsection \<open>The forward pass in the words of the specification\<close>

text \<open>
  For the layers in order: the pre-activation is the weight matrix times the previous
  activation plus the bias, the activation is the sigmoid of the pre-activation,
  element by element, and it is the input of the next layer. The input vector is fed
  to the first layer and the last activation is the result.
\<close>

fun forward_spec :: "tensor \<Rightarrow> (tensor \<times> tensor) list \<Rightarrow> error + tensor" where
  "forward_spec prev [] = Inr prev"
| "forward_spec prev ((W_l, b_l) # layers) =
     bnd (matmul W_l prev) (\<lambda>m.
     bnd (tadd m b_l) (\<lambda>pre.
     forward_spec (pointwise fsigmoid pre) layers))"

subsection \<open>Shape-compatible parameters\<close>

text \<open>
  The data model of the specification: the weight matrix of layer \<open>l\<close> has shape
  \<open>(units l, units (l - 1))\<close> and its bias vector has shape \<open>(units l, 1)\<close>, where the
  width \<open>d\<close> of the input stands for \<open>units (- 1)\<close>; there is one bias per weight.
\<close>

fun layers_fit :: "nat \<Rightarrow> tensor list \<Rightarrow> tensor list \<Rightarrow> bool" where
  "layers_fit d [] [] = True"
| "layers_fit d (W_l # Ws) (b_l # bs) =
     (ncols W_l = d \<and> nrows b_l = nrows W_l \<and> ncols b_l = 1 \<and> layers_fit (nrows W_l) Ws bs)"
| "layers_fit d _ _ = False"

subsection \<open>An example network\<close>

text \<open>
  A network of the widths the notebook runs, 7 to 5 to 3 to 1, on the input
  \<^verbatim>\<open>torch.tensor([1, 2, 3, 4, 5, 6, 7]).unsqueeze(dim=1)\<close>, with all weights one and
  all biases zero.
\<close>

definition ones :: "nat \<Rightarrow> nat \<Rightarrow> tensor" where
  "ones r c = Tensor r c (\<lambda>i j. Finite 1)"

definition zeros :: "nat \<Rightarrow> nat \<Rightarrow> tensor" where
  "zeros r c = Tensor r c (\<lambda>i j. Finite 0)"

definition x_7 :: tensor where
  "x_7 = Tensor 7 1 (\<lambda>i j. Finite (real (i + 1)))"

definition W_753 :: "tensor list" where
  "W_753 = [ones 5 7, ones 3 5, ones 1 3]"

definition b_753 :: "tensor list" where
  "b_753 = [zeros 5 1, zeros 3 1, zeros 1 1]"

text \<open>
  The ground truth 7.9 of the notebook, as a tensor of shape \<open>(1, 1)\<close>: the float
  nearest to 7.9.
\<close>

definition y_79 :: tensor where
  "y_79 = Tensor 1 1 (\<lambda>i j. fl32 (79 / 10))"

subsection \<open>Notions used in the proofs\<close>

text \<open>The three lists of the backward sweep all have length \<open>n\<close>.\<close>

definition sized :: "nat \<Rightarrow> grads \<Rightarrow> bool" where
  "sized n g \<longleftrightarrow> length (deltas g) = n \<and> length (W_grads g) = n \<and> length (b_grads g) = n"

text \<open>The three stores of one layer: \<open>d\<close> as its delta and bias gradient, \<open>wg\<close> as its weight gradient.\<close>

definition put :: "nat \<Rightarrow> tensor \<Rightarrow> tensor \<Rightarrow> grads \<Rightarrow> grads" where
  "put k d wg g =
     g\<lparr>deltas := (deltas g)[k := Some d], W_grads := (W_grads g)[k := Some wg],
       b_grads := (b_grads g)[k := Some d]\<rparr>"

text \<open>What \<^verbatim>\<open>a[k - 1]\<close> reads in a non-empty list \<open>a\<close>, for \<open>k\<close> from 0: at 0 the index is -1, the last element.\<close>

definition wrap_prev :: "tensor list \<Rightarrow> nat \<Rightarrow> tensor" where
  "wrap_prev a k = (if k = 0 then last a else a ! (k - 1))"

text \<open>Two states agree on the cells from \<open>k\<close> on.\<close>

definition same_from :: "nat \<Rightarrow> grads \<Rightarrow> grads \<Rightarrow> bool" where
  "same_from k g g' \<longleftrightarrow>
     (\<forall>l\<ge>k. deltas g' ! l = deltas g ! l \<and> W_grads g' ! l = W_grads g ! l
         \<and> b_grads g' ! l = b_grads g ! l)"




text \<open>The cells from \<open>k\<close> on have been stored, delta and bias gradient alike.\<close>

definition filled :: "nat \<Rightarrow> nat \<Rightarrow> grads \<Rightarrow> bool" where
  "filled k n g \<longleftrightarrow>
     sized n g \<and>
     (\<forall>l. k \<le> l \<and> l < n \<longrightarrow>
        (\<exists>d. deltas g ! l = Some d \<and> b_grads g ! l = Some d) \<and> W_grads g ! l \<noteq> None)"

text \<open>The three lists as first created, \<^verbatim>\<open>[None for _ in range(L + 1)]\<close>.\<close>

definition fresh :: "nat \<Rightarrow> grads" where
  "fresh n = \<lparr>deltas = replicate n None, W_grads = replicate n None, b_grads = replicate n None\<rparr>"

text \<open>
  From layer \<open>k\<close> on, below the last, what is stored is what the body of the backward
  loop computes from the delta of the next layer.
\<close>

definition steps_done :: "nat \<Rightarrow> tensor list \<Rightarrow> tensor list \<Rightarrow> grads \<Rightarrow> bool" where
  "steps_done k a W g \<longleftrightarrow>
     (\<forall>l. k \<le> l \<and> Suc l < length W \<longrightarrow>
        (\<exists>d_next t1 t2 d wg. deltas g ! Suc l = Some d_next
           \<and> matmul (transpose_t (W ! Suc l)) d_next = Inr t1
           \<and> tmul t1 (a ! l) = Inr t2 \<and> tmul t2 (rsub (Finite 1) (a ! l)) = Inr d
           \<and> deltas g ! l = Some d
           \<and> matmul d (transpose_t (wrap_prev a l)) = Inr wg \<and> W_grads g ! l = Some wg))"

section \<open>Basic facts\<close>

lemma bnd_Inl [simp]: "bnd (Inl e) f = Inl e"
  and bnd_Inr [simp]: "bnd (Inr v) f = f v"
  by (simp_all add: bnd_def)

lemma bnd_eq_Inr: "bnd m f = Inr r \<longleftrightarrow> (\<exists>v. m = Inr v \<and> f v = Inr r)"
  by (cases m) simp_all

lemma bnd_eq_Inl: "bnd m f = Inl e \<longleftrightarrow> m = Inl e \<or> (\<exists>v. m = Inr v \<and> f v = Inl e)"
  by (cases m) simp_all

lemma bdim_same [simp]: "bdim n n = Inr n"
  by (simp add: bdim_def)

lemma broadcast2_same:
  "nrows s = nrows t \<Longrightarrow> ncols s = ncols t \<Longrightarrow>
   broadcast2 f s t = Inr (Tensor (nrows s) (ncols s)
      (\<lambda>i j. f (entry s (bidx (nrows s) i) (bidx (ncols s) j))
                (entry t (bidx (nrows s) i) (bidx (ncols s) j))))"
  by (simp add: broadcast2_def)

lemma bidx_less: "i < m \<Longrightarrow> bidx m i = i"
  by (simp add: bidx_def)

section \<open>Rounding\<close>

lemma pow2_powr: "pow2 k = 2 powr (of_int k)"
proof (cases "0 \<le> k")
  case True
  then show ?thesis
    by (simp add: pow2_def powr_realpow [symmetric])
next
  case False
  define n where "n = nat (- k)"
  with False have k: "k = - int n" by simp
  have "(2::real) powr (- real n) = 1 / 2 ^ n"
    by (simp add: powr_minus_divide powr_realpow)
  with False show ?thesis
    unfolding pow2_def k by simp
qed

lemma pow2_pos [simp]: "0 < pow2 k"
  by (simp add: pow2_powr)

lemma pow2_nonneg [simp]: "0 \<le> pow2 k"
  and pow2_neq_0 [simp]: "pow2 k \<noteq> 0"
  and abs_pow2 [simp]: "\<bar>pow2 k\<bar> = pow2 k"
  by (simp_all add: pow2_powr)

lemma pow2_add: "pow2 (j + k) = pow2 j * pow2 k"
  by (simp add: pow2_powr powr_add)

lemma pow2_mono: "j \<le> k \<Longrightarrow> pow2 j \<le> pow2 k"
  by (simp add: pow2_powr)

lemma pow2_nat: "pow2 (int n) = 2 ^ n"
  by (simp add: pow2_def)

lemma pow2_int: "0 \<le> k \<Longrightarrow> pow2 k = of_int (2 ^ nat k)"
  by (simp add: pow2_def)

lemma floor_log2: "0 < x \<Longrightarrow> pow2 \<lfloor>log 2 x\<rfloor> \<le> x \<and> x < pow2 (\<lfloor>log 2 x\<rfloor> + 1)"
  using floor_log_eq_powr_iff [of x 2 "\<lfloor>log 2 x\<rfloor>"] by (simp add: pow2_powr)

lemma floor_log2_eq: "pow2 k \<le> x \<Longrightarrow> x < pow2 (k + 1) \<Longrightarrow> \<lfloor>log 2 x\<rfloor> = k"
proof -
  assume a: "pow2 k \<le> x" "x < pow2 (k + 1)"
  have "0 < pow2 k" by simp
  with a have "0 < x" by linarith
  with a show ?thesis
    using floor_log_eq_powr_iff [of x 2 k] by (simp add: pow2_powr)
qed

lemma round_even_int [simp]: "round_even (of_int n) = n"
  by (simp add: round_even_def)

lemma round_even_ge: "of_int n \<le> q \<Longrightarrow> n \<le> round_even q"
proof -
  assume "of_int n \<le> q"
  then have "n \<le> \<lfloor>q\<rfloor>" by (simp add: le_floor_iff)
  then show ?thesis by (auto simp: round_even_def Let_def)
qed

lemma round_even_le: "q \<le> of_int n \<Longrightarrow> round_even q \<le> n"
proof -
  assume a: "q \<le> of_int n"
  then have f: "\<lfloor>q\<rfloor> \<le> n" by (simp add: floor_le_iff)
  show ?thesis
  proof (cases "q - of_int \<lfloor>q\<rfloor> < 1 / 2")
    case True
    with f show ?thesis by (simp add: round_even_def)
  next
    case False
    then have "of_int \<lfloor>q\<rfloor> < q" by linarith
    with a have "of_int \<lfloor>q\<rfloor> < (of_int n :: real)" by linarith
    then have "\<lfloor>q\<rfloor> < n" by simp
    then show ?thesis by (auto simp: round_even_def Let_def)
  qed
qed

lemma round_even_down: "of_int n \<le> q \<Longrightarrow> q < of_int n + 1 / 2 \<Longrightarrow> round_even q = n"
proof -
  assume a: "of_int n \<le> q" "q < of_int n + 1 / 2"
  then have "\<lfloor>q\<rfloor> = n" by (simp add: floor_eq_iff)
  with a show ?thesis by (simp add: round_even_def)
qed


lemma pow2_le_iff: "pow2 j \<le> pow2 k \<longleftrightarrow> j \<le> k"
  by (simp add: pow2_powr)

lemma pow2_less_iff: "pow2 j < pow2 k \<longleftrightarrow> j < k"
  by (simp add: pow2_powr)

lemma pow2_diff: "pow2 j / pow2 k = pow2 (j - k)"
  using pow2_add [of "j - k" k] by simp

lemma pow2_128: "pow2 128 = 2 ^ 128"
  by (simp add: pow2_def)

lemma fl32_0 [simp]: "fl32 0 = Finite 0"
  by (simp add: fl32_def)

text \<open>The exponent of the unit in the last place, for a number between two powers of two.\<close>

lemma ulp_between:
  assumes "pow2 k \<le> \<bar>x\<bar>" "\<bar>x\<bar> < pow2 (k + 1)"
  shows "ulp x = pow2 (max k (- 126) - 23)"
  using floor_log2_eq [OF assms] by (simp add: ulp_def)

lemma ulp_exponent:
  assumes "x \<noteq> 0"
  obtains k where "pow2 k \<le> \<bar>x\<bar>" "\<bar>x\<bar> < pow2 (k + 1)" "ulp x = pow2 (max k (- 126) - 23)"
proof -
  from assms have "0 < \<bar>x\<bar>" by simp
  from floor_log2 [OF this] show ?thesis
    by (intro that [of "\<lfloor>log 2 \<bar>x\<bar>\<rfloor>"]) (simp_all add: ulp_def)
qed

lemma fl32_Finite_bound: "fl32 x = Finite r \<Longrightarrow> \<bar>r\<bar> < 2 ^ 128"
  by (auto simp: fl32_def Let_def split: if_splits)

lemma fl32_le_pow2:
  assumes "0 \<le> y" "y \<le> pow2 j" "- 149 \<le> j" "j \<le> 127"
  shows "\<exists>r. fl32 y = Finite r \<and> 0 \<le> r \<and> r \<le> pow2 j"
proof (cases "y = 0")
  case True
  then show ?thesis by simp
next
  case False
  with assms(1) have pos: "0 < y" by simp
  from False obtain k where k: "pow2 k \<le> \<bar>y\<bar>" "\<bar>y\<bar> < pow2 (k + 1)"
    and u: "ulp y = pow2 (max k (- 126) - 23)"
    by (rule ulp_exponent)
  let ?e = "max k (- 126) - 23"
  from k(1) assms(1,2) have "pow2 k \<le> pow2 j" by simp
  then have "k \<le> j" by (simp add: pow2_le_iff)
  with assms(3) have e: "?e \<le> j" by simp
  then have N: "pow2 (j - ?e) = of_int (2 ^ nat (j - ?e))"
    by (intro pow2_int) simp
  have "y / ulp y \<le> pow2 j / pow2 ?e"
    unfolding u using assms(2) by (simp add: divide_right_mono)
  then have "y / ulp y \<le> of_int (2 ^ nat (j - ?e))"
    by (simp only: pow2_diff N)
  then have "round_even (y / ulp y) \<le> 2 ^ nat (j - ?e)"
    by (rule round_even_le)
  then have "real_of_int (round_even (y / ulp y)) \<le> pow2 (j - ?e)"
    unfolding N by (simp only: of_int_le_iff)
  then have "of_int (round_even (y / ulp y)) * ulp y \<le> pow2 (j - ?e) * pow2 ?e"
    unfolding u by (simp add: mult_right_mono)
  then have le: "of_int (round_even (y / ulp y)) * ulp y \<le> pow2 j"
    by (simp add: pow2_add [symmetric])
  have "of_int 0 \<le> y / ulp y"
    using pos by (simp add: u)
  then have "0 \<le> round_even (y / ulp y)"
    by (rule round_even_ge)
  then have ge: "0 \<le> of_int (round_even (y / ulp y)) * ulp y"
    by (simp add: u)
  have "pow2 j \<le> pow2 127"
    using assms(4) by (simp add: pow2_le_iff)
  also have "pow2 127 < 2 ^ 128"
    by (simp add: pow2_def)
  finally have "pow2 j < 2 ^ 128" .
  with le ge have "\<bar>of_int (round_even (y / ulp y)) * ulp y\<bar> < 2 ^ 128"
    by linarith
  with False le ge show ?thesis
    by (simp add: fl32_def Let_def)
qed

lemma fl32_ge_pow2:
  assumes "pow2 j \<le> y" "- 149 \<le> j"
  shows "fl32 y = PInf \<or> (\<exists>r. fl32 y = Finite r \<and> pow2 j \<le> r)"
proof -
  have pos: "0 < y"
    using assms(1) pow2_pos [of j] by linarith
  then have "y \<noteq> 0" by simp
  then obtain k where k: "pow2 k \<le> \<bar>y\<bar>" "\<bar>y\<bar> < pow2 (k + 1)"
    and u: "ulp y = pow2 (max k (- 126) - 23)"
    by (rule ulp_exponent)
  let ?e = "max k (- 126) - 23"
  from k(2) assms(1) pos have "pow2 j < pow2 (k + 1)" by simp
  then have jk: "j \<le> k" by (simp add: pow2_less_iff)
  with assms(2) have e: "?e \<le> k" by simp
  then have N: "pow2 (k - ?e) = of_int (2 ^ nat (k - ?e))"
    by (intro pow2_int) simp
  have "pow2 k / pow2 ?e \<le> y / ulp y"
    unfolding u using k(1) pos by (simp add: divide_right_mono)
  then have "of_int (2 ^ nat (k - ?e)) \<le> y / ulp y"
    by (simp only: pow2_diff N)
  then have "2 ^ nat (k - ?e) \<le> round_even (y / ulp y)"
    by (rule round_even_ge)
  then have "pow2 (k - ?e) \<le> real_of_int (round_even (y / ulp y))"
    unfolding N by (simp only: of_int_le_iff)
  then have "pow2 (k - ?e) * pow2 ?e \<le> of_int (round_even (y / ulp y)) * ulp y"
    unfolding u by (simp add: mult_right_mono)
  then have "pow2 k \<le> of_int (round_even (y / ulp y)) * ulp y"
    by (simp add: pow2_add [symmetric])
  moreover have "pow2 j \<le> pow2 k"
    using jk by (simp add: pow2_le_iff)
  ultimately have "pow2 j \<le> of_int (round_even (y / ulp y)) * ulp y"
    by linarith
  with pos show ?thesis
    by (simp add: fl32_def Let_def)
qed

lemma fl32_nonneg:
  assumes "0 \<le> y"
  shows "fl32 y = PInf \<or> (\<exists>r. fl32 y = Finite r \<and> 0 \<le> r)"
proof (cases "y = 0")
  case True
  then show ?thesis by simp
next
  case False
  with assms have pos: "0 < y" by simp
  from False obtain k where u: "ulp y = pow2 (max k (- 126) - 23)"
    by (rule ulp_exponent)
  have "of_int 0 \<le> y / ulp y"
    using pos by (simp add: u)
  then have "0 \<le> round_even (y / ulp y)"
    by (rule round_even_ge)
  then have "0 \<le> of_int (round_even (y / ulp y)) * ulp y"
    by (simp add: u)
  with pos show ?thesis
    by (simp add: fl32_def Let_def)
qed

lemma fl32_overflow: "2 ^ 128 \<le> y \<Longrightarrow> fl32 y = PInf"
proof -
  assume "2 ^ 128 \<le> y"
  then have "pow2 128 \<le> y" by (simp add: pow2_128)
  from fl32_ge_pow2 [OF this] show ?thesis
    using fl32_Finite_bound [of y] by (auto simp: pow2_128)
qed

text \<open>A number that has a 24-bit significand at an exponent in range is its own rounding.\<close>

lemma fl32_representable:
  assumes "x = of_int m * pow2 e0" "\<bar>m\<bar> < 2 ^ 24" "- 149 \<le> e0" "\<bar>x\<bar> < 2 ^ 128"
  shows "fl32 x = Finite x"
proof (cases "x = 0")
  case True
  then show ?thesis by simp
next
  case False
  then obtain k where k: "pow2 k \<le> \<bar>x\<bar>" "\<bar>x\<bar> < pow2 (k + 1)"
    and u: "ulp x = pow2 (max k (- 126) - 23)"
    by (rule ulp_exponent)
  let ?e = "max k (- 126) - 23"
  have "\<bar>x\<bar> = of_int \<bar>m\<bar> * pow2 e0"
    by (simp add: assms(1) abs_mult)
  also have "\<dots> < of_int (2 ^ 24) * pow2 e0"
    using assms(2) by (intro mult_strict_right_mono) (simp_all only: of_int_less_iff pow2_pos)
  also have "\<dots> = pow2 (24 + e0)"
    using pow2_nat [of 24] by (simp add: pow2_add)
  finally have "pow2 k < pow2 (24 + e0)"
    using k(1) by linarith
  then have "k < 24 + e0" by (simp add: pow2_less_iff)
  with assms(3) have e: "?e \<le> e0" by simp
  then have N: "pow2 (e0 - ?e) = of_int (2 ^ nat (e0 - ?e))"
    by (intro pow2_int) simp
  have "x / ulp x = of_int m * (pow2 e0 / pow2 ?e)"
    unfolding u by (simp add: assms(1))
  also have "\<dots> = of_int (m * 2 ^ nat (e0 - ?e))"
    by (simp only: pow2_diff N of_int_mult)
  finally have q: "x / ulp x = of_int (m * 2 ^ nat (e0 - ?e))" .
  have "of_int (round_even (x / ulp x)) * ulp x = (x / ulp x) * ulp x"
    unfolding q by (simp only: round_even_int)
  also have "\<dots> = x"
    by (simp add: u)
  finally show ?thesis
    using False assms(4) by (simp add: fl32_def Let_def)
qed

lemma fl32_int: "\<bar>n\<bar> < 2 ^ 24 \<Longrightarrow> fl32 (of_int n) = Finite (of_int n)"
proof -
  assume a: "\<bar>n\<bar> < 2 ^ 24"
  then have "\<bar>real_of_int n\<bar> < of_int (2 ^ 24)"
    by (simp only: of_int_abs [symmetric] of_int_less_iff)
  also have "real_of_int (2 ^ 24) < 2 ^ 128" by simp
  finally have "\<bar>real_of_int n\<bar> < 2 ^ 128" .
  with a show ?thesis
    by (intro fl32_representable [of _ n 0]) (simp_all add: pow2_def)
qed

lemma fl32_near_one:
  assumes "0 \<le> e" "e \<le> pow2 (- 25)"
  shows "fl32 (1 + e) = Finite 1"
proof -
  have e: "e \<le> 1 / 2 ^ 25"
    using assms(2) by (simp add: pow2_def)
  have b: "pow2 0 \<le> \<bar>1 + e\<bar>" "\<bar>1 + e\<bar> < pow2 (0 + 1)"
    using assms(1) e by (simp_all add: pow2_def)
  have u: "ulp (1 + e) = 1 / 2 ^ 23"
    unfolding ulp_between [OF b] by (simp add: pow2_def)
  have "round_even ((1 + e) * 2 ^ 23) = 2 ^ 23"
    using assms(1) e by (intro round_even_down) simp_all
  then show ?thesis
    using assms(1) by (simp add: fl32_def Let_def u)
qed


lemma fl32_1 [simp]: "fl32 1 = Finite 1"
  using fl32_int [of 1] by simp

lemma exp_minus_25: "v \<ge> 25 \<Longrightarrow> exp (- v) \<le> pow2 (- 25)"
proof -
  assume v: "25 \<le> v"
  have "(2::real) \<le> exp 1"
    using exp_ge_add_one_self [of 1] by simp
  then have "(2::real) ^ 25 \<le> exp 1 ^ 25"
    by (intro power_mono) simp_all
  also have "exp 1 ^ 25 = exp (25::real)"
    using exp_of_nat_mult [of 25 "1::real"] by simp
  also have "\<dots> \<le> exp v"
    using v by simp
  finally have "inverse (exp v) \<le> inverse (2 ^ 25)"
    by (intro le_imp_inverse_le) simp_all
  then show ?thesis
    by (simp add: exp_minus pow2_def inverse_eq_divide)
qed

lemma fsigmoid_NaN [simp]: "fsigmoid NaN = NaN"
  and fsigmoid_PInf [simp]: "fsigmoid PInf = Finite 1"
  and fsigmoid_NInf [simp]: "fsigmoid NInf = Finite 0"
  by (simp_all add: fsigmoid_def)

lemma fsigmoid_Finite: "unit_interval (fsigmoid (Finite x))"
proof -
  from fl32_nonneg [of "exp (- x)"]
  consider "fl32 (exp (- x)) = PInf" | e where "fl32 (exp (- x)) = Finite e" "0 \<le> e"
    by auto
  then show ?thesis
  proof cases
    case 1
    then show ?thesis by (simp add: fsigmoid_def unit_interval_def)
  next
    case 2
    have "pow2 0 \<le> 1 + e"
      using 2(2) by (simp add: pow2_def)
    from fl32_ge_pow2 [OF this]
    consider "fl32 (1 + e) = PInf" | s where "fl32 (1 + e) = Finite s" "1 \<le> s"
      by (auto simp: pow2_def)
    then show ?thesis
    proof cases
      case 1
      with 2(1) show ?thesis by (simp add: fsigmoid_def unit_interval_def)
    next
      case (2 s)
      have "0 \<le> 1 / s" "1 / s \<le> pow2 0"
        using 2(2) by (simp_all add: pow2_def)
      from fl32_le_pow2 [OF this] obtain r where "fl32 (1 / s) = Finite r" "0 \<le> r" "r \<le> 1"
        by (auto simp: pow2_def)
      with 2 \<open>fl32 (exp (- x)) = Finite e\<close> show ?thesis
        by (simp add: fsigmoid_def unit_interval_def)
    qed
  qed
qed

lemma fsigmoid_range: "v = NaN \<and> fsigmoid v = NaN \<or> v \<noteq> NaN \<and> unit_interval (fsigmoid v)"
  using fsigmoid_Finite by (cases v) (simp_all add: unit_interval_def)

lemma fsigmoid_saturates:
  assumes "25 \<le> x"
  shows "fsigmoid (Finite x) = Finite 1"
proof -
  have "0 \<le> exp (- x)" by simp
  from fl32_le_pow2 [OF this exp_minus_25 [OF assms]] obtain e
    where e: "fl32 (exp (- x)) = Finite e" "0 \<le> e" "e \<le> pow2 (- 25)"
    by auto
  from fl32_near_one [OF e(2,3)] e(1) show ?thesis
    by (simp add: fsigmoid_def)
qed

lemma fl32_square_nonneg: "not_negative (fmul (Finite (1 / 2)) (fl32 (d * d)))"
proof -
  from fl32_nonneg [of "d * d"]
  consider "fl32 (d * d) = PInf" | r where "fl32 (d * d) = Finite r" "0 \<le> r"
    by auto
  then show ?thesis
  proof cases
    case 1
    then show ?thesis by (simp add: not_negative_def)
  next
    case 2
    from fl32_nonneg [of "1 / 2 * r"] 2 show ?thesis
      by (auto simp: not_negative_def)
  qed
qed

lemma half_square_nonneg: "v \<noteq> NaN \<Longrightarrow> not_negative (fmul (Finite (1 / 2)) (fmul v v))"
  using fl32_square_nonneg by (cases v) (simp_all add: not_negative_def)

lemma fsub_self: "fsub (Finite a) (Finite a) = Finite 0"
  by (simp add: fsub_def)

section \<open>The loss\<close>

lemma fl32_between:
  assumes "pow2 k \<le> \<bar>x\<bar>" "\<bar>x\<bar> < pow2 (k + 1)" "- 126 \<le> k"
  shows "fl32 x =
         (let r = of_int (round_even (x / pow2 (k - 23))) * pow2 (k - 23)
          in if 2 ^ 128 \<le> \<bar>r\<bar> then (if 0 < x then PInf else NInf) else Finite r)"
proof -
  have "0 < pow2 k" by simp
  with assms(1) have "0 < \<bar>x\<bar>" by linarith
  then have "x \<noteq> 0" by simp
  moreover have "ulp x = pow2 (k - 23)"
    unfolding ulp_between [OF assms(1,2)] using assms(3) by simp
  ultimately show ?thesis
    by (simp add: fl32_def)
qed

lemma fl32_numeral [simp]: "\<bar>numeral w\<bar> < (2::int) ^ 24 \<Longrightarrow> fl32 (numeral w) = Finite (numeral w)"
  using fl32_int [of "numeral w"] by simp

lemma fl32_4097: "fl32 (4097 / 4096) = Finite (4097 / 4096)"
  by (rule fl32_representable [of _ 4097 "- 12"]) (simp_all add: pow2_def)

lemma fl32_2049: "fl32 (2049 / 4096) = Finite (2049 / 4096)"
  by (rule fl32_representable [of _ 2049 "- 12"]) (simp_all add: pow2_def)

text \<open>A tie: the square of 4097/4096 lies half way between two floats.\<close>

lemma fl32_tie: "fl32 (16785409 / 16777216) = Finite (2049 / 2048)"
proof -
  have "round_even (16785409 / 2) = 8392704"
    by (simp add: round_even_def)
  then show ?thesis
    by (subst fl32_between [of 0]) (simp_all add: pow2_def)
qed

lemma fl32_half: "fl32 (- (1 / 2)) = Finite (- (1 / 2))"
  by (rule fl32_representable [of _ "- 1" "- 1"]) (simp_all add: pow2_def)

lemma fl32_quarter: "fl32 (1 / 4) = Finite (1 / 4)"
  by (rule fl32_representable [of _ 1 "- 2"]) (simp_all add: pow2_def)

lemma fl32_eighth: "fl32 (1 / 8) = Finite (1 / 8)"
  by (rule fl32_representable [of _ 1 "- 3"]) (simp_all add: pow2_def)

lemma fpow_2 [simp]: "fpow v 2 = fmul v v"
  by (simp add: numeral_2_eq_2)

lemma mse_loss_entries:
  assumes "mse_loss a_L y = Inr loss"
  shows "entry loss i j =
         fmul (Finite (1 / 2))
           (fmul (fsub (entry a_L (bidx (nrows a_L) i) (bidx (ncols a_L) j))
                       (entry y (bidx (nrows y) i) (bidx (ncols y) j)))
                 (fsub (entry a_L (bidx (nrows a_L) i) (bidx (ncols a_L) j))
                       (entry y (bidx (nrows y) i) (bidx (ncols y) j))))"
proof -
  from assms obtain d where d: "tsub a_L y = Inr d" and l: "loss = smul (Finite (1 / 2)) (tpow d 2)"
    by (auto simp: mse_loss_def bnd_eq_Inr)
  from d have "entry d i j = fsub (entry a_L (bidx (nrows a_L) i) (bidx (ncols a_L) j))
                   (entry y (bidx (nrows y) i) (bidx (ncols y) j))"
    by (auto simp: tsub_def broadcast2_def bnd_eq_Inr)
  with l show ?thesis
    by (simp add: smul_def tpow_def pointwise_def)
qed

text \<open>
  Claim C7, as stated, at concrete arguments. The claim is that the loss equals one
  half of the squared difference, is never negative and is 0 for a prediction equal to
  the ground truth. For the prediction 4097/4096 against 0 the loss returned is
  2049/4096, where one half of the squared difference is 16785409/33554432; for the
  prediction \<open>+inf\<close> against the ground truth \<open>+inf\<close> the loss is NaN, neither 0 nor
  non-negative, and so it is against a ground truth NaN.
\<close>

theorem mse_loss_rounds_and_yields_nan:
  "(\<exists>l. mse_loss (Tensor 1 1 (\<lambda>i j. Finite (4097 / 4096))) (zeros 1 1) = Inr l
       \<and> entry l 0 0 = Finite (2049 / 4096)
       \<and> 1 / 2 * (4097 / 4096 - 0) ^ 2 = (16785409 / 33554432 :: real))
   \<and> (\<exists>l. mse_loss (Tensor 1 1 (\<lambda>i j. PInf)) (Tensor 1 1 (\<lambda>i j. PInf)) = Inr l
       \<and> entry l 0 0 = NaN \<and> \<not> not_negative (entry l 0 0))
   \<and> (\<exists>l. mse_loss (ones 1 1) (Tensor 1 1 (\<lambda>i j. NaN)) = Inr l \<and> entry l 0 0 = NaN)"
proof (intro conjI)
  have "fmul (Finite (1 / 2)) (fmul (fsub (Finite (4097 / 4096)) (Finite 0))
          (fsub (Finite (4097 / 4096)) (Finite 0))) = Finite (2049 / 4096)"
    by (simp add: fsub_def fl32_4097 fl32_tie fl32_2049)
  then show "\<exists>l. mse_loss (Tensor 1 1 (\<lambda>i j. Finite (4097 / 4096))) (zeros 1 1) = Inr l
       \<and> entry l 0 0 = Finite (2049 / 4096)
       \<and> 1 / 2 * (4097 / 4096 - 0) ^ 2 = (16785409 / 33554432 :: real)"
    by (simp add: mse_loss_def tsub_def broadcast2_def smul_def tpow_def pointwise_def zeros_def
        bidx_def power2_eq_square)
  show "\<exists>l. mse_loss (Tensor 1 1 (\<lambda>i j. PInf)) (Tensor 1 1 (\<lambda>i j. PInf)) = Inr l
       \<and> entry l 0 0 = NaN \<and> \<not> not_negative (entry l 0 0)"
    by (simp add: mse_loss_def tsub_def broadcast2_def smul_def tpow_def pointwise_def
        fsub_def not_negative_def)
  show "\<exists>l. mse_loss (ones 1 1) (Tensor 1 1 (\<lambda>i j. NaN)) = Inr l \<and> entry l 0 0 = NaN"
    by (simp add: mse_loss_def tsub_def broadcast2_def smul_def tpow_def pointwise_def
        fsub_def ones_def)
qed

text \<open>
  Claim C7, amended. \<^verbatim>\<open>mse_loss\<close> computes one half of the squared difference element
  by element in float arithmetic, each operation rounded (the ground truth is
  broadcast against the prediction when the shapes differ). An element of the loss is
  NaN exactly when the difference is NaN, that is when an operand is NaN or both are
  the same infinity; otherwise it is not negative, possibly \<open>+inf\<close>. Where the
  prediction is finite, its loss against itself is exactly 0.
\<close>

theorem mse_loss_in_float_arithmetic:
  "(mse_loss a_L y = Inr loss \<longrightarrow>
      (\<forall>i j. \<exists>d. d = fsub (entry a_L (bidx (nrows a_L) i) (bidx (ncols a_L) j))
                         (entry y (bidx (nrows y) i) (bidx (ncols y) j))
          \<and> entry loss i j = fmul (Finite (1 / 2)) (fmul d d)
          \<and> (d = NaN \<and> entry loss i j = NaN \<or> d \<noteq> NaN \<and> not_negative (entry loss i j))))
   \<and> (shape a_L = shape y \<longrightarrow>
      (\<exists>l. mse_loss a_L y = Inr l \<and> shape l = shape a_L
         \<and> (\<forall>i<nrows a_L. \<forall>j<ncols a_L.
               entry l i j =
                 fmul (Finite (1 / 2))
                   (fmul (fsub (entry a_L i j) (entry y i j)) (fsub (entry a_L i j) (entry y i j))))))
   \<and> (\<exists>z. mse_loss a_L a_L = Inr z \<and> shape z = shape a_L
         \<and> (\<forall>i<nrows a_L. \<forall>j<ncols a_L. \<forall>r. entry a_L i j = Finite r \<longrightarrow> entry z i j = Finite 0))"
proof (intro conjI impI allI)
  fix i j
  assume ok: "mse_loss a_L y = Inr loss"
  let ?d = "fsub (entry a_L (bidx (nrows a_L) i) (bidx (ncols a_L) j))
                 (entry y (bidx (nrows y) i) (bidx (ncols y) j))"
  have e: "entry loss i j = fmul (Finite (1 / 2)) (fmul ?d ?d)"
    using ok by (rule mse_loss_entries)
  have "?d = NaN \<and> entry loss i j = NaN \<or> ?d \<noteq> NaN \<and> not_negative (entry loss i j)"
  proof (cases "?d = NaN")
    case True
    with e show ?thesis by simp
  next
    case False
    with half_square_nonneg [OF False] e show ?thesis by simp
  qed
  with e show "\<exists>d. d = ?d \<and> entry loss i j = fmul (Finite (1 / 2)) (fmul d d)
          \<and> (d = NaN \<and> entry loss i j = NaN \<or> d \<noteq> NaN \<and> not_negative (entry loss i j))"
    by blast
next
  assume "shape a_L = shape y"
  then have s: "nrows a_L = nrows y" "ncols a_L = ncols y"
    by (simp_all add: shape_def)
  then obtain l where l: "mse_loss a_L y = Inr l" and sh: "shape l = shape a_L"
    by (simp add: mse_loss_def tsub_def broadcast2_same smul_def tpow_def pointwise_def shape_def)
  have "entry l i j =
          fmul (Finite (1 / 2))
            (fmul (fsub (entry a_L i j) (entry y i j)) (fsub (entry a_L i j) (entry y i j)))"
    if "i < nrows a_L" "j < ncols a_L" for i j
    using mse_loss_entries [OF l, of i j] that s by (simp add: bidx_less)
  with l sh show "\<exists>l. mse_loss a_L y = Inr l \<and> shape l = shape a_L
         \<and> (\<forall>i<nrows a_L. \<forall>j<ncols a_L.
               entry l i j =
                 fmul (Finite (1 / 2))
                   (fmul (fsub (entry a_L i j) (entry y i j)) (fsub (entry a_L i j) (entry y i j))))"
    by blast
next
  obtain z where z: "mse_loss a_L a_L = Inr z" and sh: "shape z = shape a_L"
    by (simp add: mse_loss_def tsub_def broadcast2_same smul_def tpow_def pointwise_def shape_def)
  have "entry z i j = Finite 0"
    if "i < nrows a_L" "j < ncols a_L" "entry a_L i j = Finite r" for i j r
    using mse_loss_entries [OF z, of i j] that by (simp add: bidx_less fsub_self)
  with z sh show "\<exists>z. mse_loss a_L a_L = Inr z \<and> shape z = shape a_L
         \<and> (\<forall>i<nrows a_L. \<forall>j<ncols a_L. \<forall>r. entry a_L i j = Finite r \<longrightarrow> entry z i j = Finite 0)"
    by blast
qed

text \<open>The theorem at a prediction of 0.5 against a ground truth of 1, two outputs.\<close>

theorem mse_loss_in_float_arithmetic_witness:
  "\<exists>l. mse_loss (Tensor 2 1 (\<lambda>i j. Finite (1 / 2))) (ones 2 1) = Inr l
       \<and> shape l = [2, 1] \<and> entry l 1 0 = Finite (1 / 8) \<and> not_negative (entry l 1 0)"
proof -
  let ?a = "Tensor 2 1 (\<lambda>i j. Finite (1 / 2))" and ?y = "ones 2 1"
  have "shape ?a = shape ?y"
    by (simp add: shape_def ones_def)
  with mse_loss_in_float_arithmetic [of ?a ?y] obtain l
    where l: "mse_loss ?a ?y = Inr l" "shape l = shape ?a"
      and e: "\<forall>i<nrows ?a. \<forall>j<ncols ?a.
               entry l i j =
                 fmul (Finite (1 / 2))
                   (fmul (fsub (entry ?a i j) (entry ?y i j)) (fsub (entry ?a i j) (entry ?y i j)))"
    by blast
  from e have "entry l 1 0 = Finite (1 / 8)"
    by (simp add: ones_def fsub_def fl32_half fl32_quarter fl32_eighth)
  with l show ?thesis
    by (simp add: shape_def not_negative_def ones_def)
qed

section \<open>The forward pass\<close>

lemma py_index_nat [simp]: "py_index n (int k) = (if k < n then Inr k else Inl IndexError)"
  by (simp add: py_index_def)

lemma py_get_nat: "py_get xs (int k) = (if k < length xs then Inr (xs ! k) else Inl IndexError)"
  by (simp add: py_get_def)

lemma py_get_Cons_Suc: "py_get (v # xs) (1 + int k) = py_get xs (int k)"
  using py_get_nat [of "v # xs" "Suc k"] by (simp add: py_get_nat)

lemma py_get_Cons_0: "py_get (v # xs) 0 = Inr v"
  using py_get_nat [of "v # xs" 0] by simp

lemma py_range_0: "py_range 0 (int n - 1 + 1) = map int [0..<n]"
  by (simp add: py_range_def)

lemma upt_0_Suc_shift: "[0..<Suc n] = 0 # map Suc [0..<n]"
  by (simp add: upt_conv_Cons map_Suc_upt del: upt_Suc)

lemma forward_loop_shift:
  "forward_loop (W0 # Ws) (b0 # bs) (map (\<lambda>k. 1 + int k) ks) a_l =
   forward_loop Ws bs (map int ks) a_l"
  by (induction ks arbitrary: a_l) (simp_all add: py_get_Cons_Suc)

lemma forward_Nil: "forward x [] b = Inr x"
  by (simp add: forward_def py_range_def)

lemma forward_Cons:
  "forward x (W0 # Ws) (b0 # bs) = bnd (Z x W0 b0) (\<lambda>z. forward (A z) Ws bs)"
proof -
  have "forward x (W0 # Ws) (b0 # bs) =
        forward_loop (W0 # Ws) (b0 # bs) (map int [0..<Suc (length Ws)]) x"
    using py_range_0 [of "Suc (length Ws)"] by (simp add: forward_def)
  also have "map int [0..<Suc (length Ws)] = 0 # map (\<lambda>k. 1 + int k) [0..<length Ws]"
    by (simp only: upt_0_Suc_shift) (simp add: comp_def)
  also have "forward_loop (W0 # Ws) (b0 # bs) (0 # map (\<lambda>k. 1 + int k) [0..<length Ws]) x =
        bnd (Z x W0 b0) (\<lambda>z. forward_loop Ws bs (map int [0..<length Ws]) (A z))"
    by (simp add: py_get_Cons_0 forward_loop_shift)
  also have "\<dots> = bnd (Z x W0 b0) (\<lambda>z. forward (A z) Ws bs)"
    using py_range_0 [of "length Ws"] by (simp add: forward_def)
  finally show ?thesis .
qed

lemma nrows_ones [simp]: "nrows (ones r c) = r" and ncols_ones [simp]: "ncols (ones r c) = c"
  and nrows_zeros [simp]: "nrows (zeros r c) = r" and ncols_zeros [simp]: "ncols (zeros r c) = c"
  by (simp_all add: ones_def zeros_def)

lemma example_fits: "ncols x_7 = 1 \<and> W_753 \<noteq> [] \<and> layers_fit (nrows x_7) W_753 b_753"
  by (simp add: x_7_def W_753_def b_753_def)

text \<open>
  Claim C5. \<^verbatim>\<open>forward\<close> visits the layers 0 to L in order; at each it computes the
  pre-activation from the previous activation (the input vector at layer 0), the
  weight and the bias, applies the sigmoid element by element, and it returns the last
  activation: it is the layer-by-layer function of the specification on the paired
  weights and biases, errors included.
\<close>

theorem forward_layer_by_layer:
  "length W \<le> length b \<Longrightarrow> forward x W b = forward_spec x (zip W b)"
proof (induction W arbitrary: x b)
  case Nil
  show ?case by (simp add: forward_Nil)
next
  case (Cons W0 Ws)
  then obtain b0 bs where b: "b = b0 # bs" and len: "length Ws \<le> length bs"
    by (cases b) auto
  have "forward x (W0 # Ws) b = bnd (Z x W0 b0) (\<lambda>z. forward_spec (A z) (zip Ws bs))"
    using Cons.IH [OF len] by (simp add: b forward_Cons)
  then show ?case
    by (cases "matmul W0 x") (simp_all add: b Z_def A_def tsigmoid_def)
qed

text \<open>The theorem on the example network.\<close>

theorem forward_layer_by_layer_witness:
  "forward x_7 W_753 b_753 = forward_spec x_7 (zip W_753 b_753)
   \<and> (\<exists>out. forward_spec x_7 (zip W_753 b_753) = Inr out \<and> shape out = [1, 1])"
proof -
  have "length W_753 \<le> length b_753"
    by (simp add: W_753_def b_753_def)
  then have "forward x_7 W_753 b_753 = forward_spec x_7 (zip W_753 b_753)"
    by (rule forward_layer_by_layer)
  moreover have "\<exists>out. forward_spec x_7 (zip W_753 b_753) = Inr out \<and> shape out = [1, 1]"
    by (simp add: W_753_def b_753_def x_7_def matmul_def tadd_def broadcast2_def
        pointwise_def shape_def)
  ultimately show ?thesis by simp
qed

lemma nrows_A [simp]: "nrows (A z) = nrows z"
  and ncols_A [simp]: "ncols (A z) = ncols z"
  and entry_A [simp]: "entry (A z) i j = fsigmoid (entry z i j)"
  by (simp_all add: A_def tsigmoid_def pointwise_def)

lemma Z_fits:
  assumes "ncols W_l = nrows x" "nrows b_l = nrows W_l" "ncols b_l = ncols x"
  shows "\<exists>z. Z x W_l b_l = Inr z \<and> nrows z = nrows W_l \<and> ncols z = ncols x"
  using assms by (simp add: Z_def matmul_def tadd_def broadcast2_def)

lemma layers_fit_length: "layers_fit d W b \<Longrightarrow> length b = length W"
  by (induction d W b rule: layers_fit.induct) simp_all

lemma forward_fits:
  "layers_fit (nrows x) W b \<Longrightarrow> ncols x = 1 \<Longrightarrow>
   \<exists>out. forward x W b = Inr out \<and> nrows out = nrows (last (x # W)) \<and> ncols out = 1"
proof (induction "nrows x" W b arbitrary: x rule: layers_fit.induct)
  case 1
  then show ?case by (simp add: forward_Nil)
next
  case (2 W_l Ws b_l bs)
  from 2 have f: "ncols W_l = nrows x" "nrows b_l = nrows W_l" "ncols b_l = ncols x"
    and rest: "layers_fit (nrows W_l) Ws bs"
    by simp_all
  from Z_fits [OF f] obtain z where z: "Z x W_l b_l = Inr z" "nrows z = nrows W_l" "ncols z = ncols x"
    by blast
  have "\<exists>out. forward (A z) Ws bs = Inr out \<and> nrows out = nrows (last (A z # Ws)) \<and> ncols out = 1"
    using 2(1) [of "A z"] rest z "2.prems" by simp
  then show ?case
    using z by (auto simp: forward_Cons)
qed simp_all

lemma forward_no_bias: "forward x (W0 # Ws) [] = Inl IndexError"
  by (simp add: forward_def py_range_def py_get_def py_index_def upt_conv_Cons del: upt_Suc)

section \<open>The forward sweep of the combined pass\<close>

lemma bnd_assoc: "bnd (bnd m f) g = bnd m (\<lambda>v. bnd (f v) g)"
  by (cases m) simp_all

lemma forward_loop_append:
  "forward_loop W b (ls @ ms) a_l = bnd (forward_loop W b ls a_l) (forward_loop W b ms)"
  by (induction ls arbitrary: a_l) (simp_all add: bnd_assoc)

lemma forward_sweep_append:
  "forward_sweep x W b (ls @ ms) a = bnd (forward_sweep x W b ls a) (forward_sweep x W b ms)"
  by (induction ls arbitrary: a) (simp_all add: bnd_assoc)

lemma py_get_pred:
  "0 < n \<Longrightarrow> py_get xs (int n - 1) = (if n \<le> length xs then Inr (xs ! (n - 1)) else Inl IndexError)"
  using py_get_nat [of xs "n - 1"] by auto

lemma sweep_prev:
  "length a = n \<Longrightarrow> (if int n = 0 then Inr x else py_get a (int n - 1)) = Inr (last (x # a))"
  by (cases "n = 0") (auto simp: py_get_pred last_conv_nth)

lemma forward_sweep_one:
  assumes "length a = n"
  shows "forward_sweep x W b [int n] a =
         bnd (forward_loop W b [int n] (last (x # a))) (\<lambda>a_l. Inr (a @ [a_l]))"
  using sweep_prev [OF assms, of x]
  by (simp add: bnd_assoc)

lemma forward_sweep_upto:
  "forward_sweep x W b (map int [0..<n]) [] = Inr a \<Longrightarrow>
     length a = n \<and> forward_loop W b (map int [0..<n]) x = Inr (last (x # a))"
  "forward_sweep x W b (map int [0..<n]) [] = Inl e \<Longrightarrow>
     forward_loop W b (map int [0..<n]) x = Inl e"
proof (induction n arbitrary: a e)
  case 0
  { case 1 then show ?case by auto }
  { case 2 then show ?case by simp }
next
  case (Suc n)
  { case 1
    then obtain a' where a': "forward_sweep x W b (map int [0..<n]) [] = Inr a'"
      and st: "forward_sweep x W b [int n] a' = Inr a"
      by (auto simp: forward_sweep_append bnd_eq_Inr)
    from Suc.IH(1) [OF a'] have len: "length a' = n"
      and fl: "forward_loop W b (map int [0..<n]) x = Inr (last (x # a'))"
      by simp_all
    from st obtain a_l where al: "forward_loop W b [int n] (last (x # a')) = Inr a_l"
      and a: "a = a' @ [a_l]"
      unfolding forward_sweep_one [OF len] by (auto simp: bnd_eq_Inr)
    show ?case
      using len fl al a by (simp add: forward_loop_append) }
  { case 2
    show ?case
    proof (cases "forward_sweep x W b (map int [0..<n]) []")
      case (Inl e')
      with 2 have "e' = e" by (simp add: forward_sweep_append)
      with Suc.IH(2) Inl show ?thesis by (simp add: forward_loop_append)
    next
      case (Inr a')
      from Suc.IH(1) [OF Inr] have len: "length a' = n"
        and fl: "forward_loop W b (map int [0..<n]) x = Inr (last (x # a'))"
        by simp_all
      from 2 Inr have "forward_sweep x W b [int n] a' = Inl e"
        by (simp add: forward_sweep_append)
      then have "forward_loop W b [int n] (last (x # a')) = Inl e"
        unfolding forward_sweep_one [OF len] by (auto simp: bnd_eq_Inl)
      with fl show ?thesis by (simp add: forward_loop_append)
    qed }
qed

lemma forward_sweep_prefix:
  "forward_sweep x W b (map int [0..<n]) [] = Inr a \<Longrightarrow> m \<le> n \<Longrightarrow>
   forward_sweep x W b (map int [0..<m]) [] = Inr (take m a)"
proof (induction n arbitrary: a)
  case 0
  then show ?case by auto
next
  case (Suc n)
  from Suc.prems(1) obtain a' where a': "forward_sweep x W b (map int [0..<n]) [] = Inr a'"
    and st: "forward_sweep x W b [int n] a' = Inr a"
    by (auto simp: forward_sweep_append bnd_eq_Inr)
  from forward_sweep_upto(1) [OF a'] have len: "length a' = n" by simp
  from st obtain a_l where a: "a = a' @ [a_l]"
    unfolding forward_sweep_one [OF len] by (auto simp: bnd_eq_Inr)
  show ?case
  proof (cases "m = Suc n")
    case True
    with Suc.prems(1) forward_sweep_upto(1) [OF Suc.prems(1)] show ?thesis by simp
  next
    case False
    with Suc.prems(2) have "m \<le> n" by simp
    with Suc.IH [OF a'] len a show ?thesis by simp
  qed
qed

lemma forward_loop_take:
  "\<forall>k\<in>set ks. k < m \<Longrightarrow>
   forward_loop (take m W) b (map int ks) a_l = forward_loop W b (map int ks) a_l"
  by (induction ks arbitrary: a_l) (simp_all add: py_get_nat)

lemma forward_upto: "forward x W b = forward_loop W b (map int [0..<length W]) x"
  using py_range_0 [of "length W"] by (simp add: forward_def)

lemma forward_take:
  "n \<le> length W \<Longrightarrow> forward x (take n W) b = forward_loop W b (map int [0..<n]) x"
  by (simp add: forward_upto forward_loop_take)

lemma forward_sweep_cache:
  assumes "forward_sweep x W b (map int [0..<length W]) [] = Inr a"
  shows "length a = length W"
    and "l < length W \<Longrightarrow> forward x (take (Suc l) W) b = Inr (a ! l)"
    and "forward x W b = Inr (last (x # a))"
proof -
  from forward_sweep_upto(1) [OF assms] show len: "length a = length W"
    and "forward x W b = Inr (last (x # a))"
    by (simp_all add: forward_upto)
  assume l: "l < length W"
  then have "forward_sweep x W b (map int [0..<Suc l]) [] = Inr (take (Suc l) a)"
    using forward_sweep_prefix [OF assms, of "Suc l"] by simp
  from forward_sweep_upto(1) [OF this]
  have "forward_loop W b (map int [0..<Suc l]) x = Inr (last (x # take (Suc l) a))"
    by simp
  moreover have "last (x # take (Suc l) a) = a ! l"
    using l len by (simp add: take_Suc_conv_app_nth)
  ultimately show "forward x (take (Suc l) W) b = Inr (a ! l)"
    using l forward_take [of "Suc l" W x b] by simp
qed

section \<open>The range of the output\<close>

lemma forward_last_layer:
  assumes "forward x W b = Inr out" and "W \<noteq> []"
  shows "\<exists>a_prev z. forward x (butlast W) b = Inr a_prev
           \<and> Z a_prev (last W) (b ! (length W - 1)) = Inr z \<and> out = A z"
proof -
  from assms(2) obtain m where len: "length W = Suc m"
    by (cases W) auto
  have "forward x W b =
        bnd (forward_loop W b (map int [0..<m]) x) (forward_loop W b [int m])"
    by (simp add: forward_upto len forward_loop_append)
  with assms(1) obtain a_prev where p: "forward_loop W b (map int [0..<m]) x = Inr a_prev"
    and st: "forward_loop W b [int m] a_prev = Inr out"
    by (auto simp: bnd_eq_Inr)
  have "butlast W = take m W"
    using len by (simp add: butlast_conv_take)
  with p len have 1: "forward x (butlast W) b = Inr a_prev"
    by (simp add: forward_take)
  from st len obtain z where "Z a_prev (W ! m) (b ! m) = Inr z" "out = A z"
    by (auto simp: py_get_nat bnd_eq_Inr split: if_splits)
  moreover have "W ! m = last W"
    using len assms(2) by (simp add: last_conv_nth)
  ultimately show ?thesis
    using 1 len by auto
qed

lemma dot_ones_x_7: "dot 7 (\<lambda>k. Finite 1) (\<lambda>k. Finite (1 + real k)) = Finite 28"
  by (simp add: dot_def eval_nat_numeral upt_conv_Cons del: upt_Suc)

text \<open>
  Claim C6, as stated, at concrete arguments. The claim is that every element of the
  output lies strictly between 0 and 1. For the input 1 to 7, one layer of five units
  with all weights 1 and all biases 0, each pre-activation is 28 and each element of
  the output is exactly 1: the sigmoid saturates. For an input that is NaN the
  output is NaN.
\<close>

theorem forward_output_reaches_one_and_nan:
  "(\<exists>out. forward x_7 [ones 5 7] [zeros 5 1] = Inr out \<and> shape out = [5, 1]
       \<and> entry out 0 0 = Finite 1)
   \<and> (\<exists>out. forward (Tensor 1 1 (\<lambda>i j. NaN)) [ones 1 1] [zeros 1 1] = Inr out
       \<and> shape out = [1, 1] \<and> entry out 0 0 = NaN)"
proof (intro conjI)
  have "fsigmoid (Finite 28) = Finite 1"
    by (rule fsigmoid_saturates) simp
  then show "\<exists>out. forward x_7 [ones 5 7] [zeros 5 1] = Inr out \<and> shape out = [5, 1]
       \<and> entry out 0 0 = Finite 1"
    by (simp add: forward_Cons forward_Nil Z_def matmul_def tadd_def broadcast2_def bidx_def
        shape_def x_7_def ones_def zeros_def dot_ones_x_7)
  show "\<exists>out. forward (Tensor 1 1 (\<lambda>i j. NaN)) [ones 1 1] [zeros 1 1] = Inr out
       \<and> shape out = [1, 1] \<and> entry out 0 0 = NaN"
    by (simp add: forward_Cons forward_Nil Z_def matmul_def tadd_def broadcast2_def bidx_def
        shape_def ones_def zeros_def dot_def)
qed

text \<open>
  Claim C6, amended. On an input of shape \<open>(d, 1)\<close> and shape-compatible weights and
  biases, at least one layer, \<^verbatim>\<open>forward\<close> returns a tensor of shape \<open>(units L, 1)\<close>: the
  sigmoid of the pre-activation of the last layer. Each of its elements lies in the
  closed interval from 0 to 1, both ends included, unless its pre-activation is NaN;
  then it is NaN.
\<close>

theorem forward_output_in_closed_unit_interval:
  assumes "ncols x = 1" and "W \<noteq> []" and "layers_fit (nrows x) W b"
  shows "\<exists>out a_prev z. forward x W b = Inr out \<and> shape out = [nrows (last W), 1]
           \<and> forward x (butlast W) b = Inr a_prev \<and> Z a_prev (last W) (last b) = Inr z
           \<and> out = A z
           \<and> (\<forall>i<nrows out. \<forall>j<ncols out.
                 entry z i j = NaN \<and> entry out i j = NaN
                 \<or> entry z i j \<noteq> NaN \<and> unit_interval (entry out i j))"
proof -
  from forward_fits [OF assms(3) assms(1)] assms(2) obtain out
    where out: "forward x W b = Inr out" "nrows out = nrows (last W)" "ncols out = 1"
    by auto
  from forward_last_layer [OF out(1) assms(2)] obtain a_prev z
    where p: "forward x (butlast W) b = Inr a_prev"
      and z: "Z a_prev (last W) (b ! (length W - 1)) = Inr z" and a: "out = A z"
    by blast
  from layers_fit_length [OF assms(3)] assms(2) have "b \<noteq> []" "length b = length W"
    by auto
  then have "b ! (length W - 1) = last b"
    by (simp add: last_conv_nth)
  with z have z': "Z a_prev (last W) (last b) = Inr z" by simp
  have "entry z i j = NaN \<and> entry out i j = NaN
        \<or> entry z i j \<noteq> NaN \<and> unit_interval (entry out i j)" for i j
    using fsigmoid_range [of "entry z i j"] by (simp add: a)
  with out p z' a show ?thesis
    by (simp add: shape_def)
qed

text \<open>The theorem on the first layer of the example network: the pre-activations are 28.\<close>

theorem forward_output_in_closed_unit_interval_witness:
  "\<exists>out. forward x_7 [ones 5 7] [zeros 5 1] = Inr out \<and> shape out = [5, 1]
      \<and> unit_interval (entry out 4 0)"
proof -
  have "ncols x_7 = 1" "[ones 5 7] \<noteq> []" "layers_fit (nrows x_7) [ones 5 7] [zeros 5 1]"
    by (simp_all add: x_7_def)
  from forward_output_in_closed_unit_interval [OF this] obtain out a_prev z
    where out: "forward x_7 [ones 5 7] [zeros 5 1] = Inr out"
      "shape out = [nrows (last [ones 5 7]), 1]"
      and p: "forward x_7 (butlast [ones 5 7]) [zeros 5 1] = Inr a_prev"
      and z: "Z a_prev (last [ones 5 7]) (last [zeros 5 1]) = Inr z"
      and r: "\<forall>i<nrows out. \<forall>j<ncols out.
                 entry z i j = NaN \<and> entry out i j = NaN
                 \<or> entry z i j \<noteq> NaN \<and> unit_interval (entry out i j)"
    by blast
  from p have "a_prev = x_7"
    by (simp add: forward_Nil)
  with z have "entry z 4 0 = Finite 28"
    by (auto simp: Z_def matmul_def tadd_def broadcast2_def bidx_def x_7_def ones_def zeros_def
        dot_ones_x_7)
  moreover from out(2) have "4 < nrows out" "0 < ncols out"
    by (simp_all add: shape_def)
  with r have "entry z 4 0 = NaN \<and> entry out 4 0 = NaN
      \<or> entry z 4 0 \<noteq> NaN \<and> unit_interval (entry out 4 0)"
    by blast
  ultimately have "unit_interval (entry out 4 0)"
    by simp
  with out show ?thesis
    by simp
qed

section \<open>The backward sweep\<close>

lemma py_set_nat:
  "py_set xs (int k) v = (if k < length xs then Inr (xs[k := v]) else Inl IndexError)"
  by (simp add: py_set_def)

lemma py_get_Suc:
  "py_get xs (int k + 1) = (if Suc k < length xs then Inr (xs ! Suc k) else Inl IndexError)"
  using py_get_nat [of xs "Suc k"] by (simp add: add.commute)

lemma py_get_wrap:
  "k < length xs \<Longrightarrow> py_get xs (int k - 1) = Inr (if k = 0 then last xs else xs ! (k - 1))"
proof (cases "k = 0")
  case True
  assume "k < length xs"
  with True show ?thesis
    by (cases xs) (simp_all add: py_get_def py_index_def last_conv_nth nat_diff_distrib)
next
  case False
  assume "k < length xs"
  with False show ?thesis
    by (simp add: py_get_pred)
qed

lemma store_grads_nat:
  assumes "sized n g" "length a = n" "k < n" "deltas g ! k = Some d"
  shows "store_grads a (int k) g =
         bnd (matmul d (transpose_t (wrap_prev a k))) (\<lambda>wg.
           Inr (g\<lparr>W_grads := (W_grads g)[k := Some wg], b_grads := (b_grads g)[k := Some d]\<rparr>))"
  using assms
  by (simp add: store_grads_def sized_def py_get_nat py_get_wrap py_set_nat as_tensor_def
      wrap_prev_def)

lemma backward_last_nat:
  assumes "sized (Suc m) g" "length a = Suc m"
  shows "backward_last a y (int m) g =
         bnd (tsub (a ! m) y) (\<lambda>t1.
         bnd (tmul t1 (a ! m)) (\<lambda>t2.
         bnd (tmul t2 (rsub (Finite 1) (a ! m))) (\<lambda>d.
         bnd (matmul d (transpose_t (wrap_prev a m))) (\<lambda>wg.
         Inr (put m d wg g)))))"
proof -
  have "store_grads a (int m) (g\<lparr>deltas := (deltas g)[m := Some d]\<rparr>) =
        bnd (matmul d (transpose_t (wrap_prev a m))) (\<lambda>wg. Inr (put m d wg g))" for d
    using assms
    by (subst store_grads_nat [where n = "Suc m" and d = d]) (simp_all add: sized_def put_def)
  with assms show ?thesis
    by (simp add: backward_last_def py_get_nat py_set_nat sized_def)
qed

lemma backward_step_nat:
  assumes "sized n g" "length a = n" "length W = n" "Suc k < n" "deltas g ! Suc k = Some d_next"
  shows "backward_step a W (int k) g =
         bnd (matmul (transpose_t (W ! Suc k)) d_next) (\<lambda>t1.
         bnd (tmul t1 (a ! k)) (\<lambda>t2.
         bnd (tmul t2 (rsub (Finite 1) (a ! k))) (\<lambda>d.
         bnd (matmul d (transpose_t (wrap_prev a k))) (\<lambda>wg.
         Inr (put k d wg g)))))"
proof -
  have "store_grads a (int k) (g\<lparr>deltas := (deltas g)[k := Some d]\<rparr>) =
        bnd (matmul d (transpose_t (wrap_prev a k))) (\<lambda>wg. Inr (put k d wg g))" for d
    using assms
    by (subst store_grads_nat [where n = n and d = d]) (simp_all add: sized_def put_def)
  with assms show ?thesis
    by (simp add: backward_step_def py_get_nat py_get_Suc py_set_nat sized_def as_tensor_def)
qed

lemma backward_step_None:
  assumes "sized n g" "length a = n" "length W = n" "Suc k < n" "deltas g ! Suc k = None"
  shows "backward_step a W (int k) g = Inl TypeError"
  using assms
  by (simp add: backward_step_def py_get_nat py_get_Suc sized_def as_tensor_def)

lemma py_range_down_rev: "py_range_down (int m - 1) (- 1) = map int (rev [0..<m])"
proof -
  have "map (\<lambda>k. int m - 1 - int k) [0..<m] = map int (rev [0..<m])"
    by (rule nth_equalityI) (auto simp: rev_nth)
  then show ?thesis
    by (simp add: py_range_down_def)
qed

lemma matmul_error: "matmul s t = Inl e \<Longrightarrow> e = ShapeMismatch"
  by (simp add: matmul_def split: if_splits)

lemma bdim_error: "bdim m n = Inl e \<Longrightarrow> e = ShapeMismatch"
  by (simp add: bdim_def split: if_splits)

lemma broadcast2_error: "broadcast2 f s t = Inl e \<Longrightarrow> e = ShapeMismatch"
  by (auto simp: broadcast2_def bnd_eq_Inl dest: bdim_error)

lemmas elementwise_error =
  broadcast2_error [of fadd, folded tadd_def]
  broadcast2_error [of fsub, folded tsub_def]
  broadcast2_error [of fmul, folded tmul_def]

lemma sized_put [simp]: "sized n (put k d wg g) = sized n g"
  by (simp add: sized_def put_def)

lemma filled_put: "filled (Suc k) n g \<Longrightarrow> filled k n (put k d wg g)"
  unfolding filled_def sized_put
  by (auto simp: put_def sized_def nth_list_update)

lemma same_from_put: "same_from (Suc k) g (put k d wg g)"
  by (simp add: same_from_def put_def)

lemma same_from_trans: "same_from (Suc k) g g1 \<Longrightarrow> same_from k g1 g' \<Longrightarrow> same_from (Suc k) g g'"
  by (simp add: same_from_def)

lemma backward_loop_rev_Suc:
  "backward_loop a W (map int (rev [0..<Suc k])) g =
   bnd (backward_step a W (int k) g) (backward_loop a W (map int (rev [0..<k])))"
  by simp

lemma backward_step_cases:
  assumes "filled (Suc k) n g" "length a = n" "length W = n" "Suc k < n"
  shows "backward_step a W (int k) g = Inl ShapeMismatch
         \<or> (\<exists>d wg. backward_step a W (int k) g = Inr (put k d wg g))"
proof -
  from assms(1,4) obtain d_next where dn: "deltas g ! Suc k = Some d_next" and sz: "sized n g"
    by (auto simp: filled_def)
  show ?thesis
    unfolding backward_step_nat [OF sz assms(2,3,4) dn]
    by (auto simp: bnd_def split: sum.splits dest: matmul_error elementwise_error)
qed

lemma backward_loop_filled:
  assumes "length a = n" "length W = n"
  shows "filled k n g \<Longrightarrow> k < n \<Longrightarrow>
         backward_loop a W (map int (rev [0..<k])) g = Inl ShapeMismatch
         \<or> (\<exists>g'. backward_loop a W (map int (rev [0..<k])) g = Inr g'
                \<and> filled 0 n g' \<and> same_from k g g')"
proof (induction k arbitrary: g)
  case 0
  then show ?case by (simp add: same_from_def)
next
  case (Suc k)
  from backward_step_cases [OF Suc.prems(1) assms Suc.prems(2)]
  show ?case
  proof
    assume "backward_step a W (int k) g = Inl ShapeMismatch"
    then show ?thesis by (simp del: upt_Suc add: backward_loop_rev_Suc)
  next
    assume "\<exists>d wg. backward_step a W (int k) g = Inr (put k d wg g)"
    then obtain d wg where st: "backward_step a W (int k) g = Inr (put k d wg g)"
      by blast
    have "filled k n (put k d wg g)"
      using Suc.prems(1) by (rule filled_put)
    moreover have "k < n"
      using Suc.prems(2) by simp
    ultimately have "backward_loop a W (map int (rev [0..<k])) (put k d wg g) = Inl ShapeMismatch
         \<or> (\<exists>g'. backward_loop a W (map int (rev [0..<k])) (put k d wg g) = Inr g'
                \<and> filled 0 n g' \<and> same_from k (put k d wg g) g')"
      by (rule Suc.IH)
    then show ?thesis
      using st same_from_trans [OF same_from_put [of k g d wg]]
      by (auto simp del: upt_Suc simp add: backward_loop_rev_Suc)
  qed
qed

lemma sized_fresh [simp]: "sized n (fresh n)"
  by (simp add: sized_def fresh_def)

lemma filled_last: "sized (Suc m) g \<Longrightarrow> filled m (Suc m) (put m d wg g)"
  by (auto simp: filled_def sized_def put_def less_Suc_eq)

lemma put_nth:
  "sized n g \<Longrightarrow> k < n \<Longrightarrow>
   deltas (put k d wg g) ! k = Some d \<and> W_grads (put k d wg g) ! k = Some wg
   \<and> b_grads (put k d wg g) ! k = Some d"
  by (simp add: put_def sized_def)

lemma backward_sweep_nat:
  "backward_sweep a y W (int m) =
   bnd (backward_last a y (int m) (fresh (Suc m))) (backward_loop a W (map int (rev [0..<m])))"
proof -
  have "nat (int m + 1) = Suc m" by simp
  moreover have "int m - 1 = int m - 1" ..
  ultimately show ?thesis
    unfolding backward_sweep_def Let_def py_range_down_rev fresh_def by simp
qed

lemma backward_sweep_cases:
  assumes "length a = Suc m" "length W = Suc m"
  shows "backward_sweep a y W (int m) = Inl ShapeMismatch
       \<or> (\<exists>g t1 t2 d wg. backward_sweep a y W (int m) = Inr g \<and> filled 0 (Suc m) g
            \<and> tsub (a ! m) y = Inr t1 \<and> tmul t1 (a ! m) = Inr t2
            \<and> tmul t2 (rsub (Finite 1) (a ! m)) = Inr d
            \<and> matmul d (transpose_t (wrap_prev a m)) = Inr wg
            \<and> deltas g ! m = Some d \<and> W_grads g ! m = Some wg \<and> b_grads g ! m = Some d)"
proof (cases "backward_last a y (int m) (fresh (Suc m))")
  case (Inl e)
  then have "e = ShapeMismatch"
    unfolding backward_last_nat [OF sized_fresh assms(1)]
    by (auto simp: bnd_eq_Inl dest: matmul_error elementwise_error)
  with Inl show ?thesis
    by (simp add: backward_sweep_nat)
next
  case (Inr g1)
  then obtain t1 t2 d wg where c: "tsub (a ! m) y = Inr t1" "tmul t1 (a ! m) = Inr t2"
    "tmul t2 (rsub (Finite 1) (a ! m)) = Inr d" "matmul d (transpose_t (wrap_prev a m)) = Inr wg"
    and g1: "g1 = put m d wg (fresh (Suc m))"
    unfolding backward_last_nat [OF sized_fresh assms(1)]
    by (auto simp: bnd_eq_Inr)
  have f: "filled m (Suc m) g1"
    unfolding g1 by (rule filled_last) simp
  have at_m: "deltas g1 ! m = Some d \<and> W_grads g1 ! m = Some wg \<and> b_grads g1 ! m = Some d"
    unfolding g1 by (rule put_nth [OF sized_fresh]) simp
  from backward_loop_filled [OF assms f] show ?thesis
  proof
    assume "backward_loop a W (map int (rev [0..<m])) g1 = Inl ShapeMismatch"
    with Inr show ?thesis by (simp add: backward_sweep_nat)
  next
    assume "\<exists>g'. backward_loop a W (map int (rev [0..<m])) g1 = Inr g' \<and> filled 0 (Suc m) g'
        \<and> same_from m g1 g'"
    then obtain g' where g': "backward_loop a W (map int (rev [0..<m])) g1 = Inr g'"
      "filled 0 (Suc m) g'" "same_from m g1 g'"
      by blast
    from g'(3) at_m
    have "deltas g' ! m = Some d \<and> W_grads g' ! m = Some wg \<and> b_grads g' ! m = Some d"
      by (simp add: same_from_def)
    with Inr g' c show ?thesis
      by (simp add: backward_sweep_nat)
  qed simp
qed







lemma forward_backward_Nil: "forward_backward x y [] b out0 = (Inl IndexError, out0)"
  by (simp add: forward_backward_def py_range_def py_get_def py_index_def)

lemma forward_backward_Suc:
  assumes "length W = Suc m"
  shows "forward_backward x y W b out0 =
     (case forward_sweep x W b (map int [0..<Suc m]) [] of
        Inl e \<Rightarrow> (Inl e, out0)
      | Inr a \<Rightarrow>
     (case py_get a (int m) of
        Inl e \<Rightarrow> (Inl e, out0)
      | Inr a_L \<Rightarrow>
     (case mse_loss a_L y of
        Inl e \<Rightarrow> (Inl e, out0 @ [Final_activation a_L])
      | Inr loss \<Rightarrow>
     (case backward_sweep a y W (int m) of
        Inl e \<Rightarrow> (Inl e, out0 @ [Final_activation a_L, Loss loss])
      | Inr g \<Rightarrow>
     (case print_shapes W b g (map int [0..<Suc m]) (out0 @ [Final_activation a_L, Loss loss]) of
        (Inl e, out3) \<Rightarrow> (Inl e, out3)
      | (Inr u, out3) \<Rightarrow> (Inr (loss, W_grads g, b_grads g), out3))))))"
  using py_range_0 [of "Suc m"] assms
  by (simp add: forward_backward_def Let_def del: upt_Suc split: sum.splits)


text \<open>What a successful call went through.\<close>

lemma forward_backward_Inr:
  assumes "forward_backward x y W b out0 = (Inr (loss, Wg, bg), out)"
  obtains m a g where "length W = Suc m"
    and "forward_sweep x W b (map int [0..<Suc m]) [] = Inr a" and "length a = Suc m"
    and "mse_loss (a ! m) y = Inr loss" and "backward_sweep a y W (int m) = Inr g"
    and "Wg = W_grads g" and "bg = b_grads g"
proof (cases W)
  case Nil
  with assms show ?thesis by (simp add: forward_backward_Nil)
next
  case (Cons W0 Ws)
  then have len: "length W = Suc (length Ws)" by simp
  from assms obtain a where a: "forward_sweep x W b (map int [0..<Suc (length Ws)]) [] = Inr a"
    unfolding forward_backward_Suc [OF len] by (auto split: sum.splits)
  from forward_sweep_upto(1) [OF a] have la: "length a = Suc (length Ws)" by simp
  then have aL: "py_get a (int (length Ws)) = Inr (a ! length Ws)"
    by (simp add: py_get_nat)
  from assms a aL obtain g where "mse_loss (a ! length Ws) y = Inr loss"
    "backward_sweep a y W (int (length Ws)) = Inr g" "Wg = W_grads g" "bg = b_grads g"
    unfolding forward_backward_Suc [OF len]
    by (auto simp del: upt_Suc split: sum.splits prod.splits)
  with len a la show ?thesis by (rule that)
qed

section \<open>The layers below the last\<close>

lemma steps_done_put:
  assumes "steps_done (Suc k) a W g" "sized (length W) g" "Suc k < length W"
    and "deltas g ! Suc k = Some d_next"
    and "matmul (transpose_t (W ! Suc k)) d_next = Inr t1"
    and "tmul t1 (a ! k) = Inr t2" "tmul t2 (rsub (Finite 1) (a ! k)) = Inr d"
    and "matmul d (transpose_t (wrap_prev a k)) = Inr wg"
  shows "steps_done k a W (put k d wg g)"
  unfolding steps_done_def
proof (intro allI impI)
  fix l assume l: "k \<le> l \<and> Suc l < length W"
  show "\<exists>d_next t1 t2 d' wg'. deltas (put k d wg g) ! Suc l = Some d_next
           \<and> matmul (transpose_t (W ! Suc l)) d_next = Inr t1
           \<and> tmul t1 (a ! l) = Inr t2 \<and> tmul t2 (rsub (Finite 1) (a ! l)) = Inr d'
           \<and> deltas (put k d wg g) ! l = Some d'
           \<and> matmul d' (transpose_t (wrap_prev a l)) = Inr wg'
           \<and> W_grads (put k d wg g) ! l = Some wg'"
  proof (cases "l = k")
    case True
    with assms(2-) show ?thesis
      by (simp add: put_def sized_def)
  next
    case False
    with l have "Suc k \<le> l \<and> Suc l < length W" by simp
    with assms(1) False show ?thesis
      by (simp add: put_def steps_done_def)
  qed
qed

lemma backward_loop_steps:
  assumes "length a = length W"
  shows "filled k (length W) g \<Longrightarrow> steps_done k a W g \<Longrightarrow> k < length W \<Longrightarrow>
         backward_loop a W (map int (rev [0..<k])) g = Inr g' \<Longrightarrow> steps_done 0 a W g'"
proof (induction k arbitrary: g)
  case 0
  then show ?case by simp
next
  case (Suc k)
  from Suc.prems(1,3) obtain d_next where dn: "deltas g ! Suc k = Some d_next"
    and sz: "sized (length W) g"
    by (auto simp: filled_def)
  from Suc.prems(4) obtain g1 where st: "backward_step a W (int k) g = Inr g1"
    and rest: "backward_loop a W (map int (rev [0..<k])) g1 = Inr g'"
    by (auto simp del: upt_Suc simp add: backward_loop_rev_Suc bnd_eq_Inr)
  from st obtain t1 t2 d wg where c: "matmul (transpose_t (W ! Suc k)) d_next = Inr t1"
    "tmul t1 (a ! k) = Inr t2" "tmul t2 (rsub (Finite 1) (a ! k)) = Inr d"
    "matmul d (transpose_t (wrap_prev a k)) = Inr wg" and g1: "g1 = put k d wg g"
    unfolding backward_step_nat [OF sz assms refl Suc.prems(3) dn]
    by (auto simp: bnd_eq_Inr)
  have sd: "steps_done k a W g1"
    unfolding g1 using Suc.prems(2) sz Suc.prems(3) dn c by (rule steps_done_put)
  have f1: "filled k (length W) g1"
    unfolding g1 using Suc.prems(1) by (rule filled_put)
  have "k < length W"
    using Suc.prems(3) by simp
  with f1 sd show ?case
    using rest by (rule Suc.IH)
qed

text \<open>
  What a successful call has stored for a layer \<open>l\<close> below the last: the delta is
  \<open>(transpose W (l + 1) . delta (l + 1)) * a_l * (1 - a_l)\<close>, the bias gradient is the
  delta, and the weight gradient is the delta times the transpose of \<^verbatim>\<open>a[l - 1]\<close>,
  which is the activation of the layer before for \<open>l > 0\<close> and the last activation of
  the cache for \<open>l = 0\<close>.
\<close>

lemma hidden_layer_gradients:
  assumes "forward_backward x y W b out0 = (Inr (loss, Wg, bg), out)" and "Suc l < length W"
  shows "\<exists>a d_next t1 t2 d_l wg.
      forward_sweep x W b (map int [0..<length W]) [] = Inr a
    \<and> bg ! Suc l = Some d_next \<and> matmul (transpose_t (W ! Suc l)) d_next = Inr t1
    \<and> tmul t1 (a ! l) = Inr t2 \<and> tmul t2 (rsub (Finite 1) (a ! l)) = Inr d_l \<and> bg ! l = Some d_l
    \<and> matmul d_l (transpose_t (if l = 0 then last a else a ! (l - 1))) = Inr wg
    \<and> Wg ! l = Some wg"
proof -
  from assms(1) obtain m a g where len: "length W = Suc m"
    and a: "forward_sweep x W b (map int [0..<Suc m]) [] = Inr a" and la: "length a = Suc m"
    and g: "backward_sweep a y W (int m) = Inr g" "Wg = W_grads g" "bg = b_grads g"
    by (rule forward_backward_Inr)
  from la len have eq: "length a = length W" by simp
  from g(1) obtain g1 where bl: "backward_last a y (int m) (fresh (Suc m)) = Inr g1"
    and lp: "backward_loop a W (map int (rev [0..<m])) g1 = Inr g"
    by (auto simp: backward_sweep_nat bnd_eq_Inr)
  from bl obtain d wg where g1: "g1 = put m d wg (fresh (Suc m))"
    unfolding backward_last_nat [OF sized_fresh la] by (auto simp: bnd_eq_Inr)
  have f1: "filled m (length W) g1"
    unfolding g1 len by (rule filled_last) simp
  have "steps_done m a W g1"
    using len by (auto simp: steps_done_def)
  from backward_loop_steps [OF eq f1 this _ lp] len have sd: "steps_done 0 a W g"
    by simp
  from backward_sweep_cases [OF la len, of y] g(1) have f: "filled 0 (Suc m) g"
    by auto
  from sd assms(2) obtain d_next t1 t2 d_l wg' where c: "deltas g ! Suc l = Some d_next"
    "matmul (transpose_t (W ! Suc l)) d_next = Inr t1" "tmul t1 (a ! l) = Inr t2"
    "tmul t2 (rsub (Finite 1) (a ! l)) = Inr d_l" "deltas g ! l = Some d_l"
    "matmul d_l (transpose_t (wrap_prev a l)) = Inr wg'" "W_grads g ! l = Some wg'"
    unfolding steps_done_def by blast
  from f assms(2) len have "\<exists>d. deltas g ! Suc l = Some d \<and> b_grads g ! Suc l = Some d"
    "\<exists>d. deltas g ! l = Some d \<and> b_grads g ! l = Some d"
    by (simp_all add: filled_def)
  with c(1,5) have "b_grads g ! Suc l = Some d_next" "b_grads g ! l = Some d_l"
    by auto
  with a len c g(2,3) show ?thesis
    by (auto simp: wrap_prev_def)
qed

section \<open>The combined pass on the example network\<close>

lemma py_index_numeral [simp]:
  "py_index n 0 = (if 0 < n then Inr 0 else Inl IndexError)"
  "py_index n 1 = (if 1 < n then Inr 1 else Inl IndexError)"
  "py_index n (numeral k) = (if numeral k < n then Inr (numeral k) else Inl IndexError)"
  "py_index n (- 1) = (if 1 \<le> n then Inr (n - 1) else Inl IndexError)"
  by (auto simp: py_index_def)

lemmas run_defs =
  forward_backward_def py_range_def py_range_down_def py_get_def py_set_def Z_def matmul_def
  tadd_def tsub_def tmul_def broadcast2_def bdim_def mse_loss_def backward_sweep_def
  backward_last_def backward_step_def store_grads_def as_tensor_def shape_of_def
  shapes_line_def shape_def transpose_t_def rsub_def smul_def tpow_def pointwise_def A_def
  tsigmoid_def ones_def zeros_def upt_conv_Cons numeral_2_eq_2 numeral_3_eq_3

lemma example_runs:
  "\<exists>loss Wg bg out. forward_backward x_7 y_79 W_753 b_753 [] = (Inr (loss, Wg, bg), out)"
  by (simp add: run_defs x_7_def y_79_def W_753_def b_753_def del: upt_Suc)

section \<open>The last layer\<close>

lemma delta_entries:
  assumes "tsub a_L y = Inr t1" "tmul t1 a_L = Inr t2" "tmul t2 (rsub (Finite 1) a_L) = Inr d"
    and "shape y = shape a_L" and "i < nrows a_L" "j < ncols a_L"
  shows "entry d i j =
         fmul (fmul (fsub (entry a_L i j) (entry y i j)) (entry a_L i j))
           (fsub (Finite 1) (entry a_L i j))"
proof -
  from assms(4) have s: "nrows a_L = nrows y" "ncols a_L = ncols y"
    by (simp_all add: shape_def)
  from assms(1) s have t1: "nrows t1 = nrows a_L" "ncols t1 = ncols a_L"
    "entry t1 i j = fsub (entry a_L i j) (entry y i j)"
    using assms(5,6) by (auto simp: tsub_def broadcast2_same bidx_less)
  from assms(2) t1 have t2: "nrows t2 = nrows a_L" "ncols t2 = ncols a_L"
    "entry t2 i j = fmul (fsub (entry a_L i j) (entry y i j)) (entry a_L i j)"
    using assms(5,6) by (auto simp: tmul_def broadcast2_same bidx_less)
  have r: "nrows (rsub (Finite 1) a_L) = nrows a_L" "ncols (rsub (Finite 1) a_L) = ncols a_L"
    "entry (rsub (Finite 1) a_L) i j = fsub (Finite 1) (entry a_L i j)"
    by (simp_all add: rsub_def pointwise_def)
  from assms(3) t2 r show ?thesis
    using assms(5,6) by (auto simp: tmul_def broadcast2_same bidx_less)
qed

text \<open>
  Claim C3. When \<^verbatim>\<open>forward_backward\<close> returns, the delta of the last layer is
  \<open>(a_L - y) * a_L * (1 - a_L)\<close>, element by element in float arithmetic when the
  ground truth has the shape of the output; the bias gradient it returns for the last layer is that delta,
  and the weight gradient is the delta times the transpose of \<^verbatim>\<open>a[L - 1]\<close>. Both
  activations are read from the cache of the forward sweep: \<open>a_L\<close> is the output of
  the network and, when there is more than one layer, \<^verbatim>\<open>a[L - 1]\<close> is the output of
  the layers before the last.
\<close>

theorem last_layer_gradients:
  assumes "forward_backward x y W b out0 = (Inr (loss, Wg, bg), out)"
  shows "\<exists>a a_L a_prev t1 t2 delta_L wg.
      forward_sweep x W b (py_range 0 (int (length W) - 1 + 1)) [] = Inr a
    \<and> py_get a (int (length W) - 1) = Inr a_L \<and> forward x W b = Inr a_L
    \<and> py_get a (int (length W) - 1 - 1) = Inr a_prev
    \<and> (1 < length W \<longrightarrow> forward x (butlast W) b = Inr a_prev)
    \<and> tsub a_L y = Inr t1 \<and> tmul t1 a_L = Inr t2 \<and> tmul t2 (rsub (Finite 1) a_L) = Inr delta_L
    \<and> (shape y = shape a_L \<longrightarrow>
         (\<forall>i<nrows a_L. \<forall>j<ncols a_L.
            entry delta_L i j =
              fmul (fmul (fsub (entry a_L i j) (entry y i j)) (entry a_L i j))
                (fsub (Finite 1) (entry a_L i j))))
    \<and> matmul delta_L (transpose_t a_prev) = Inr wg
    \<and> py_get Wg (int (length W) - 1) = Inr (Some wg)
    \<and> py_get bg (int (length W) - 1) = Inr (Some delta_L)"
proof -
  from assms obtain m a g where len: "length W = Suc m"
    and a: "forward_sweep x W b (map int [0..<Suc m]) [] = Inr a" and la: "length a = Suc m"
    and g: "backward_sweep a y W (int m) = Inr g" "Wg = W_grads g" "bg = b_grads g"
    by (rule forward_backward_Inr)
  from backward_sweep_cases [OF la len, of y] g(1) obtain t1 t2 d wg
    where f: "filled 0 (Suc m) g"
      and c: "tsub (a ! m) y = Inr t1" "tmul t1 (a ! m) = Inr t2"
        "tmul t2 (rsub (Finite 1) (a ! m)) = Inr d" "matmul d (transpose_t (wrap_prev a m)) = Inr wg"
      and st: "W_grads g ! m = Some wg" "b_grads g ! m = Some d"
    by auto
  from a len have a': "forward_sweep x W b (map int [0..<length W]) [] = Inr a"
    by simp
  have 1: "forward_sweep x W b (py_range 0 (int (length W) - 1 + 1)) [] = Inr a"
    using a' by (simp only: py_range_0)
  have 2: "py_get a (int (length W) - 1) = Inr (a ! m)"
    using la len py_get_nat [of a m] by simp
  have "a \<noteq> []" using la by auto
  then have 3: "forward x W b = Inr (a ! m)"
    using forward_sweep_cache(3) [OF a'] la by (simp add: last_conv_nth)
  have 4: "py_get a (int (length W) - 1 - 1) = Inr (wrap_prev a m)"
    using la len py_get_wrap [of m a] by (simp add: wrap_prev_def)
  have 5: "forward x (butlast W) b = Inr (wrap_prev a m)" if "1 < length W"
  proof -
    from that len obtain k where k: "m = Suc k" by (cases m) auto
    then have "k < length W" using len by simp
    from forward_sweep_cache(2) [OF a' this] have "forward x (take (Suc k) W) b = Inr (a ! k)" .
    moreover have "take (Suc k) W = butlast W"
      using len k by (simp add: butlast_conv_take)
    ultimately show ?thesis by (simp add: wrap_prev_def k)
  qed
  have 6: "\<forall>i<nrows (a ! m). \<forall>j<ncols (a ! m).
      entry d i j =
        fmul (fmul (fsub (entry (a ! m) i j) (entry y i j)) (entry (a ! m) i j))
          (fsub (Finite 1) (entry (a ! m) i j))"
    if "shape y = shape (a ! m)"
    using delta_entries [OF c(1,2,3) that] by blast
  from f have "sized (Suc m) g" by (simp add: filled_def)
  then have 7: "py_get Wg (int (length W) - 1) = Inr (Some wg)"
    and 8: "py_get bg (int (length W) - 1) = Inr (Some d)"
    using st g(2,3) len py_get_nat [of Wg m] py_get_nat [of bg m] by (simp_all add: sized_def)
  from 1 2 3 4 5 6 7 8 c show ?thesis
    by blast
qed

text \<open>The theorem on the example network: the gradients of layer 2.\<close>

theorem last_layer_gradients_witness:
  "\<exists>loss Wg bg out delta_L wg.
      forward_backward x_7 y_79 W_753 b_753 [] = (Inr (loss, Wg, bg), out)
    \<and> py_get Wg 2 = Inr (Some wg) \<and> py_get bg 2 = Inr (Some delta_L)
    \<and> shape wg = [1, 3] \<and> shape delta_L = [1, 1]"
proof -
  from example_runs obtain loss Wg bg out
    where run: "forward_backward x_7 y_79 W_753 b_753 [] = (Inr (loss, Wg, bg), out)"
    by blast
  from last_layer_gradients [OF run] obtain a_L a_prev t1 t2 delta_L wg
    where "forward x_7 W_753 b_753 = Inr a_L"
      and "forward x_7 (butlast W_753) b_753 = Inr a_prev"
      and "tsub a_L y_79 = Inr t1" "tmul t1 a_L = Inr t2" "tmul t2 (rsub (Finite 1) a_L) = Inr delta_L"
      and "matmul delta_L (transpose_t a_prev) = Inr wg"
      and "py_get Wg (int (length W_753) - 1) = Inr (Some wg)"
      and "py_get bg (int (length W_753) - 1) = Inr (Some delta_L)"
    by (auto simp: W_753_def)
  then have "py_get Wg 2 = Inr (Some wg) \<and> py_get bg 2 = Inr (Some delta_L)
    \<and> shape wg = [1, 3] \<and> shape delta_L = [1, 1]"
    by (auto simp: forward_upto run_defs x_7_def y_79_def W_753_def b_753_def
        bnd_eq_Inr simp del: upt_Suc)
  with run show ?thesis by blast
qed

section \<open>The forward sweep against the forward pass\<close>

lemma forward_backward_loss:
  assumes "forward_backward x y W b out0 = (Inr (loss, Wg, bg), out)"
  shows "\<exists>a_L. forward x W b = Inr a_L \<and> mse_loss a_L y = Inr loss"
proof -
  from assms obtain m a where len: "length W = Suc m"
    and a: "forward_sweep x W b (map int [0..<Suc m]) [] = Inr a" and la: "length a = Suc m"
    and l: "mse_loss (a ! m) y = Inr loss"
    by (rule forward_backward_Inr)
  from a len have "forward_sweep x W b (map int [0..<length W]) [] = Inr a"
    by simp
  from forward_sweep_cache(3) [OF this] la have "forward x W b = Inr (a ! m)"
    by (cases a rule: rev_cases) (simp_all add: nth_append)
  with l show ?thesis by blast
qed

lemma forward_sweep_fails:
  assumes "forward x W b = Inl e"
  shows "forward_sweep x W b (map int [0..<length W]) [] = Inl e"
proof (cases "forward_sweep x W b (map int [0..<length W]) []")
  case (Inl e')
  from forward_sweep_upto(2) [OF this] assms show ?thesis
    using Inl by (simp add: forward_upto)
next
  case (Inr a)
  from forward_sweep_upto(1) [OF this] assms show ?thesis
    by (simp add: forward_upto)
qed

lemma forward_sweep_succeeds:
  assumes "forward x W b = Inr a_L"
  shows "\<exists>a. forward_sweep x W b (map int [0..<length W]) [] = Inr a"
proof (cases "forward_sweep x W b (map int [0..<length W]) []")
  case (Inl e')
  from forward_sweep_upto(2) [OF this] assms show ?thesis
    by (simp add: forward_upto)
next
  case (Inr a)
  then show ?thesis by blast
qed

text \<open>
  Claim C4. With at least one layer, the forward sweep of \<^verbatim>\<open>forward_backward\<close> is
  \<^verbatim>\<open>forward\<close>: both fail with the same exception, before anything is printed, or
  both succeed, and then the cache holds one activation per layer, its entry \<open>l\<close> is
  what \<^verbatim>\<open>forward\<close> returns on the layers 0 to \<open>l\<close>, and its last entry \<^verbatim>\<open>a[L]\<close> is what
  \<^verbatim>\<open>forward\<close> returns on the whole network. The loss \<^verbatim>\<open>forward_backward\<close> returns is
  the loss of that activation.
\<close>

theorem forward_sweep_is_forward:
  assumes "W \<noteq> []"
  shows "(case forward x W b of
            Inl e \<Rightarrow> forward_sweep x W b (py_range 0 (int (length W) - 1 + 1)) [] = Inl e
               \<and> forward_backward x y W b out0 = (Inl e, out0)
          | Inr a_L \<Rightarrow>
              (\<exists>a. forward_sweep x W b (py_range 0 (int (length W) - 1 + 1)) [] = Inr a
                 \<and> length a = length W \<and> py_get a (int (length W) - 1) = Inr a_L
                 \<and> (\<forall>l<length W. forward x (take (Suc l) W) b = Inr (a ! l))))
      \<and> (forward_backward x y W b out0 = (Inr (loss, Wg, bg), out) \<longrightarrow>
           (\<exists>a_L. forward x W b = Inr a_L \<and> mse_loss a_L y = Inr loss))"
proof (intro conjI impI)
  from assms obtain m where len: "length W = Suc m"
    by (cases W) auto
  show "case forward x W b of
            Inl e \<Rightarrow> forward_sweep x W b (py_range 0 (int (length W) - 1 + 1)) [] = Inl e
               \<and> forward_backward x y W b out0 = (Inl e, out0)
          | Inr a_L \<Rightarrow>
              (\<exists>a. forward_sweep x W b (py_range 0 (int (length W) - 1 + 1)) [] = Inr a
                 \<and> length a = length W \<and> py_get a (int (length W) - 1) = Inr a_L
                 \<and> (\<forall>l<length W. forward x (take (Suc l) W) b = Inr (a ! l)))"
  proof (cases "forward x W b")
    case (Inl e)
    from forward_sweep_fails [OF this]
    have s: "forward_sweep x W b (map int [0..<length W]) [] = Inl e" .
    then have "forward_backward x y W b out0 = (Inl e, out0)"
      unfolding forward_backward_Suc [OF len] using len by simp
    with s Inl show ?thesis
      by (simp only: py_range_0) simp
  next
    case (Inr a_L)
    from forward_sweep_succeeds [OF this] obtain a
      where a: "forward_sweep x W b (map int [0..<length W]) [] = Inr a"
      by blast
    note c = forward_sweep_cache [OF a]
    from c(1) assms have "a \<noteq> []" by auto
    with c(3) Inr have "a_L = last a" by simp
    with c(1) len \<open>a \<noteq> []\<close> have "py_get a (int (length W) - 1) = Inr a_L"
      using py_get_nat [of a m] by (simp add: last_conv_nth)
    with a c(1,2) Inr show ?thesis
      by (simp only: py_range_0) simp
  qed
next
  assume "forward_backward x y W b out0 = (Inr (loss, Wg, bg), out)"
  from forward_backward_loss [OF this]
  show "\<exists>a_L. forward x W b = Inr a_L \<and> mse_loss a_L y = Inr loss"
    by blast
qed

text \<open>The theorem on the example network.\<close>

theorem forward_sweep_is_forward_witness:
  "\<exists>a a_L. forward x_7 W_753 b_753 = Inr a_L
     \<and> forward_sweep x_7 W_753 b_753 (py_range 0 (int (length W_753) - 1 + 1)) [] = Inr a
     \<and> length a = 3 \<and> py_get a 2 = Inr a_L
     \<and> forward x_7 (take 1 W_753) b_753 = Inr (a ! 0)
     \<and> forward x_7 (take 2 W_753) b_753 = Inr (a ! 1)"
proof -
  have ne: "W_753 \<noteq> []" by (simp add: W_753_def)
  from forward_fits [of x_7 W_753 b_753] example_fits obtain a_L
    where f: "forward x_7 W_753 b_753 = Inr a_L"
    by blast
  from forward_sweep_is_forward [OF ne, THEN conjunct1, of x_7 b_753 y_79 "[]"] f obtain a
    where "forward_sweep x_7 W_753 b_753 (py_range 0 (int (length W_753) - 1 + 1)) [] = Inr a"
      and "length a = length W_753" and "py_get a (int (length W_753) - 1) = Inr a_L"
      and c: "\<forall>l<length W_753. forward x_7 (take (Suc l) W_753) b_753 = Inr (a ! l)"
    by auto
  moreover have "0 < length W_753" "1 < length W_753"
    by (simp_all add: W_753_def)
  with c have "forward x_7 (take (Suc 0) W_753) b_753 = Inr (a ! 0)"
    "forward x_7 (take (Suc 1) W_753) b_753 = Inr (a ! 1)"
    by blast+
  moreover have "length W_753 = 3" "int (length W_753) - 1 = 2"
    by (simp_all add: W_753_def)
  ultimately show ?thesis
    using f by (auto simp: numeral_2_eq_2)
qed

section \<open>A single layer\<close>



section \<open>The gradients of the first layer\<close>

text \<open>
  Claim C1, on the example network. The claim is that every gradient has the shape
  of its parameter. The call returns, and the weight gradient of layer 0 has shape
  \<open>[5, 1]\<close> where the weight matrix has shape \<open>[5, 7]\<close>; the other gradients have the
  shapes of their parameters. The three lines the last loop prints are those shown in
  the notebook under the cell that runs \<^verbatim>\<open>forward_backward\<close> on these widths.
\<close>

theorem weight_gradient_shapes_on_example:
  "\<exists>loss Wg bg out.
      forward_backward x_7 y_79 W_753 b_753 [] = (Inr (loss, Wg, bg), out)
    \<and> map shape W_753 = [[5, 7], [3, 5], [1, 3]]
    \<and> map (map_option shape) Wg = [Some [5, 1], Some [3, 5], Some [1, 3]]
    \<and> map shape b_753 = [[5, 1], [3, 1], [1, 1]]
    \<and> map (map_option shape) bg = [Some [5, 1], Some [3, 1], Some [1, 1]]
    \<and> drop 2 out =
         [Layer_shapes 0 [5, 7] [5, 1] [5, 1] [5, 1] [5, 1],
          Layer_shapes 1 [3, 5] [3, 5] [3, 1] [3, 1] [3, 1],
          Layer_shapes 2 [1, 3] [1, 3] [1, 1] [1, 1] [1, 1]]"
  by (simp add: run_defs x_7_def y_79_def W_753_def b_753_def del: upt_Suc)

text \<open>
  Claim C2, on the example network. The claim is that the weight gradient of layer 0
  is the delta of layer 0 times the transpose of the input vector. The call stores the
  delta times the transpose of \<^verbatim>\<open>a[-1]\<close>, the output of the last layer: a tensor of
  shape \<open>[5, 1]\<close>, where the product with the transposed input has shape \<open>[5, 7]\<close>.
\<close>

theorem first_layer_weight_gradient_on_example:
  "\<exists>loss Wg bg out a_L delta_0 wg wx.
      forward_backward x_7 y_79 W_753 b_753 [] = (Inr (loss, Wg, bg), out)
    \<and> forward x_7 W_753 b_753 = Inr a_L
    \<and> bg ! 0 = Some delta_0 \<and> Wg ! 0 = Some wg
    \<and> matmul delta_0 (transpose_t a_L) = Inr wg \<and> shape wg = [5, 1]
    \<and> matmul delta_0 (transpose_t x_7) = Inr wx \<and> shape wx = [5, 7]"
  by (simp add: forward_def run_defs x_7_def y_79_def W_753_def b_753_def del: upt_Suc)

section \<open>What the combined pass prints\<close>

lemma print_shapes_appends:
  "print_shapes W b g ls out =
   (fst (print_shapes W b g ls []), out @ snd (print_shapes W b g ls []))"
proof (induction ls arbitrary: out)
  case Nil
  show ?case by simp
next
  case (Cons l ls)
  show ?case
  proof (cases "shapes_line W b g l")
    case (Inl e)
    then show ?thesis by simp
  next
    case (Inr line)
    with Cons [of "out @ [line]"] Cons [of "[line]"] show ?thesis by simp
  qed
qed

lemma forward_backward_appends:
  "forward_backward x y W b out0 =
   (fst (forward_backward x y W b []), out0 @ snd (forward_backward x y W b []))"
proof -
  have "print_shapes W b g ls (out0 @ out) =
        (fst (print_shapes W b g ls out), out0 @ snd (print_shapes W b g ls out))" for g ls out
    using print_shapes_appends [of W b g ls "out0 @ out"] print_shapes_appends [of W b g ls out]
    by simp
  then show ?thesis
    by (simp add: forward_backward_def Let_def split: sum.splits prod.splits)
qed

section \<open>Failures\<close>








lemma nrows_rsub [simp]: "nrows (rsub c t) = nrows t"
  and ncols_rsub [simp]: "ncols (rsub c t) = ncols t"
  by (simp_all add: rsub_def pointwise_def)

















end
